theory Spec2Isabelle
  imports Complex_Main "HOL-Library.Sublist"
begin

section \<open>Data model (load\_optimizer/models.py)\<close>

text \<open>
  The numeric fields of a job and of a configuration are Python numbers. They are
  modelled as exact reals: rounding of binary floating point is not part of this
  development. The field \<open>id\<close> of the source is called \<open>job_id\<close> here, since
  \<open>id\<close> is the identity function of HOL; the field \<open>notes\<close> is called \<open>job_notes\<close>.
\<close>

record Job =
  job_id :: string
  revenue :: real
  loaded_miles :: real
  deadhead_miles :: real
  hours :: real
  pallets :: real
  pickup_city :: string
  dropoff_city :: string
  date :: string
  job_notes :: string

record ProblemConfig =
  max_hours :: real
  max_pallets :: real
  fuel_cost_per_mile :: real
  driver_cost_per_hour :: real

section \<open>Python values and errors\<close>

datatype py_error = KeyError string | TypeError

text \<open>Dictionary subscription \<open>d[k]\<close>: a missing key raises \<open>KeyError\<close>.\<close>

definition getitem :: "(string \<rightharpoonup> 'v) \<Rightarrow> string \<Rightarrow> py_error + 'v" where
  "getitem d k = (case d k of None \<Rightarrow> Inl (KeyError k) | Some v \<Rightarrow> Inr v)"

text \<open>Sequencing of statements that may raise: the first error is propagated.\<close>

definition bind_err :: "py_error + 'a \<Rightarrow> ('a \<Rightarrow> py_error + 'b) \<Rightarrow> py_error + 'b" where
  "bind_err m f = (case m of Inl e \<Rightarrow> Inl e | Inr v \<Rightarrow> f v)"

section \<open>The interface of the linear-programming library\<close>

text \<open>
  The source builds its problem with the library \<open>pulp\<close> and hands it to the CBC solver.
  The objects of that library which the source touches are modelled as follows.
  \<^item> A variable is identified by its name; every variable the source creates is binary
    (\<open>lowBound=0, upBound=1, cat=LpBinary\<close>).
  \<^item> An affine expression is the list of its terms \<open>coefficient * variable\<close>; its value
    under an assignment is the sum of the terms, so that two terms on the same variable
    add up as they do in the library.
  \<^item> Every constraint the source states has the form \<open>expression \<le> number\<close>.
  \<^item> The problem is a maximisation (\<open>LpMaximize\<close>).
\<close>

datatype lp_var = LpVariable string

type_synonym lp_expr = "(real \<times> lp_var) list"

record lp_constraint =
  lhs :: lp_expr
  rhs :: real

record LpProblem =
  objective :: lp_expr
  constraints :: "lp_constraint list"

datatype lp_status = NotSolved | Optimal | Infeasible | Unbounded | Undefined

text \<open>
  After \<open>prob.solve\<close> the source reads the status of the problem and the value of each
  variable, which is \<open>None\<close> for a variable the solver did not set.
\<close>

type_synonym lp_solution = "lp_status \<times> (lp_var \<Rightarrow> real option)"

type_synonym solver = "LpProblem \<Rightarrow> lp_solution"

text \<open>
  The built-in \<open>sum\<close> starts from the integer \<open>0\<close>: over an empty generator it returns the
  integer, over a non-empty one an affine expression.
\<close>

datatype py_sum = PyZero | LpAffineExpression lp_expr

definition sum_terms :: "lp_expr \<Rightarrow> py_sum" where
  "sum_terms ts = (if ts = [] then PyZero else LpAffineExpression ts)"

text \<open>
  The comparison \<open>s <= bound\<close> is a library constraint when \<open>s\<close> is an affine expression, and
  a Python boolean when \<open>s\<close> is the integer \<open>0\<close>.
\<close>

datatype py_operand = PyBool bool | LpConstraint lp_constraint

definition py_le :: "py_sum \<Rightarrow> real \<Rightarrow> py_operand" where
  "py_le s bound =
     (case s of
        PyZero \<Rightarrow> PyBool (0 \<le> bound)
      | LpAffineExpression ts \<Rightarrow> LpConstraint \<lparr>lhs = ts, rhs = bound\<rparr>)"

text \<open>
  \<open>prob += operand\<close>: a constraint is appended; the boolean \<open>True\<close> is ignored; the boolean
  \<open>False\<close> is refused by the library with a \<open>TypeError\<close> (the behaviour of
  \<open>LpProblem.__iadd__\<close> in the current releases of the library, which is not part of the
  repository). Booleans reach this operator only when no job is left, since the sum
  over no job is the integer \<open>0\<close>.
\<close>

definition iadd :: "LpProblem \<Rightarrow> py_operand \<Rightarrow> py_error + LpProblem" where
  "iadd prob operand =
     (case operand of
        PyBool b \<Rightarrow> (if b then Inr prob else Inl TypeError)
      | LpConstraint c \<Rightarrow> Inr (prob\<lparr>constraints := constraints prob @ [c]\<rparr>))"

text \<open>\<open>prob += s\<close> for the objective: the integer \<open>0\<close> is the expression without terms.\<close>

definition set_objective :: "LpProblem \<Rightarrow> py_sum \<Rightarrow> LpProblem" where
  "set_objective prob s =
     (case s of
        PyZero \<Rightarrow> prob\<lparr>objective := []\<rparr>
      | LpAffineExpression ts \<Rightarrow> prob\<lparr>objective := ts\<rparr>)"

definition new_problem :: LpProblem where
  "new_problem = \<lparr>objective = [], constraints = []\<rparr>"

section \<open>The optimizer (load\_optimizer/optimizer.py)\<close>

definition compute_job_profit :: "Job \<Rightarrow> ProblemConfig \<Rightarrow> real" where
  "compute_job_profit job cfg =
     (let total_miles = loaded_miles job + deadhead_miles job;
          fuel_cost = total_miles * fuel_cost_per_mile cfg;
          labor_cost = hours job * driver_cost_per_hour cfg;
          total_cost = fuel_cost + labor_cost
      in revenue job - total_cost)"

text \<open>Lines 40 to 42: the dictionary of profits, keyed by job id; a later job overwrites.\<close>

definition build_profits :: "Job list \<Rightarrow> ProblemConfig \<Rightarrow> (string \<rightharpoonup> real)" where
  "build_profits jobs cfg =
     foldl (\<lambda>profits job. profits(job_id job \<mapsto> compute_job_profit job cfg)) Map.empty jobs"

text \<open>Lines 46 to 50: the loop that keeps the jobs whose profit reaches the floor.\<close>

fun filter_loop ::
  "(string \<rightharpoonup> real) \<Rightarrow> real \<Rightarrow> Job list \<Rightarrow> Job list \<Rightarrow> py_error + Job list" where
  "filter_loop profits m filtered_jobs [] = Inr filtered_jobs"
| "filter_loop profits m filtered_jobs (job # rest) =
     bind_err (getitem profits (job_id job)) (\<lambda>p.
       filter_loop profits m (if p \<ge> m then filtered_jobs @ [job] else filtered_jobs) rest)"

definition eligible_jobs ::
  "(string \<rightharpoonup> real) \<Rightarrow> real option \<Rightarrow> Job list \<Rightarrow> py_error + Job list" where
  "eligible_jobs profits min_profit_per_job jobs =
     (case min_profit_per_job of
        None \<Rightarrow> Inr jobs
      | Some m \<Rightarrow> filter_loop profits m [] jobs)"

text \<open>Lines 56 to 58: one variable per key; a later job with the same id overwrites.\<close>

definition build_vars :: "Job list \<Rightarrow> (string \<rightharpoonup> lp_var)" where
  "build_vars jobs =
     foldl (\<lambda>x job. x(job_id job \<mapsto> LpVariable (''x_'' @ job_id job))) Map.empty jobs"

text \<open>The generators \<open>coef(job) * x[job.id] for job in jobs\<close>.\<close>

fun lp_terms ::
  "(Job \<Rightarrow> py_error + real) \<Rightarrow> (string \<rightharpoonup> lp_var) \<Rightarrow> Job list \<Rightarrow> py_error + lp_expr" where
  "lp_terms coef x [] = Inr []"
| "lp_terms coef x (job # rest) =
     bind_err (coef job) (\<lambda>c.
     bind_err (getitem x (job_id job)) (\<lambda>v.
     bind_err (lp_terms coef x rest) (\<lambda>ts. Inr ((c, v) # ts))))"

definition add_constraint ::
  "(Job \<Rightarrow> real) \<Rightarrow> (string \<rightharpoonup> lp_var) \<Rightarrow> Job list \<Rightarrow> real \<Rightarrow> LpProblem
     \<Rightarrow> py_error + LpProblem" where
  "add_constraint coef x jobs bound prob =
     bind_err (lp_terms (\<lambda>job. Inr (coef job)) x jobs) (\<lambda>ts.
       iadd prob (py_le (sum_terms ts) bound))"

definition add_optional_constraint ::
  "(Job \<Rightarrow> real) \<Rightarrow> (string \<rightharpoonup> lp_var) \<Rightarrow> Job list \<Rightarrow> real option \<Rightarrow> LpProblem
     \<Rightarrow> py_error + LpProblem" where
  "add_optional_constraint coef x jobs bound prob =
     (case bound of
        None \<Rightarrow> Inr prob
      | Some b \<Rightarrow> add_constraint coef x jobs b prob)"

text \<open>Lines 53 to 78: objective and constraints, in the order of the source.\<close>

definition build_problem ::
  "(string \<rightharpoonup> real) \<Rightarrow> (string \<rightharpoonup> lp_var) \<Rightarrow> Job list \<Rightarrow> ProblemConfig
     \<Rightarrow> real option \<Rightarrow> real option \<Rightarrow> py_error + LpProblem" where
  "build_problem profits x jobs cfg max_deadhead max_total_miles =
     bind_err (lp_terms (\<lambda>job. getitem profits (job_id job)) x jobs) (\<lambda>obj.
     bind_err (add_constraint hours x jobs (max_hours cfg)
                 (set_objective new_problem (sum_terms obj))) (\<lambda>prob1.
     bind_err (add_constraint pallets x jobs (max_pallets cfg) prob1) (\<lambda>prob2.
     bind_err (add_optional_constraint deadhead_miles x jobs max_deadhead prob2) (\<lambda>prob3.
       add_optional_constraint (\<lambda>job. loaded_miles job + deadhead_miles job) x jobs
         max_total_miles prob3))))"

record Result =
  status :: lp_status
  total_profit :: real
  total_hours :: real
  total_pallets :: real
  chosen_jobs :: "Job list"
  all_profits :: "string \<rightharpoonup> real"

text \<open>
  Lines 84 to 94: the loop that reads the solution. The accumulator holds
  \<open>chosen_jobs\<close>, \<open>total_profit\<close>, \<open>total_hours\<close> and \<open>total_pallets\<close>.
\<close>

definition selected :: "(lp_var \<Rightarrow> real option) \<Rightarrow> lp_var \<Rightarrow> bool" where
  "selected val v = (case val v of None \<Rightarrow> False | Some r \<Rightarrow> r > 0.5)"

fun extract_loop ::
  "(lp_var \<Rightarrow> real option) \<Rightarrow> (string \<rightharpoonup> lp_var) \<Rightarrow> (string \<rightharpoonup> real)
     \<Rightarrow> Job list \<times> real \<times> real \<times> real \<Rightarrow> Job list
     \<Rightarrow> py_error + (Job list \<times> real \<times> real \<times> real)" where
  "extract_loop val x profits acc [] = Inr acc"
| "extract_loop val x profits (chosen, tprofit, thours, tpallets) (job # rest) =
     bind_err (getitem x (job_id job)) (\<lambda>v.
       if selected val v then
         bind_err (getitem profits (job_id job)) (\<lambda>p.
           extract_loop val x profits
             (chosen @ [job], tprofit + p, thours + hours job, tpallets + pallets job) rest)
       else extract_loop val x profits (chosen, tprofit, thours, tpallets) rest)"

definition optimize_jobs ::
  "solver \<Rightarrow> Job list \<Rightarrow> ProblemConfig \<Rightarrow> real option \<Rightarrow> real option \<Rightarrow> real option
     \<Rightarrow> py_error + Result" where
  "optimize_jobs solve jobs0 cfg max_deadhead max_total_miles min_profit_per_job =
     (let profits = build_profits jobs0 cfg in
      bind_err (eligible_jobs profits min_profit_per_job jobs0) (\<lambda>jobs.
      let x = build_vars jobs in
      bind_err (build_problem profits x jobs cfg max_deadhead max_total_miles) (\<lambda>prob.
      let (st, val) = solve prob in
      bind_err (extract_loop val x profits ([], 0, 0, 0) jobs)
        (\<lambda>(chosen, tprofit, thours, tpallets).
           Inr \<lparr>status = st, total_profit = tprofit, total_hours = thours,
                total_pallets = tpallets, chosen_jobs = chosen,
                all_profits = profits\<rparr>))))"

section \<open>The contract of the solver\<close>

definition eval_expr :: "(lp_var \<Rightarrow> real) \<Rightarrow> lp_expr \<Rightarrow> real" where
  "eval_expr a ts = sum_list (map (\<lambda>(c, v). c * a v) ts)"

definition satisfies :: "(lp_var \<Rightarrow> real) \<Rightarrow> LpProblem \<Rightarrow> bool" where
  "satisfies a prob \<longleftrightarrow> list_all (\<lambda>c. eval_expr a (lhs c) \<le> rhs c) (constraints prob)"

definition binary :: "(lp_var \<Rightarrow> real) \<Rightarrow> bool" where
  "binary a \<longleftrightarrow> (\<forall>v. a v = 0 \<or> a v = 1)"

definition prob_vars :: "LpProblem \<Rightarrow> lp_var list" where
  "prob_vars prob =
     remdups (map snd (objective prob) @ concat (map (\<lambda>c. map snd (lhs c)) (constraints prob)))"

definition value_of :: "(lp_var \<Rightarrow> real option) \<Rightarrow> lp_var \<Rightarrow> real" where
  "value_of val v = (case val v of None \<Rightarrow> 0 | Some r \<Rightarrow> r)"

text \<open>
  Modelled from the spec: the solver itself (pulp with CBC) is an external program and is
  not part of the repository. Its contract is the one of the Selector of the specification
  (section 4.4): when some binary assignment satisfies every constraint, the status is
  \<open>Optimal\<close>, every variable of the problem has the value 0 or 1, and the assignment
  returned satisfies the constraints and has the greatest objective value among the binary
  assignments that do; when none does, the status is \<open>Infeasible\<close>, and nothing is said
  about the values left in the variables.
\<close>

definition exact_solver :: "solver \<Rightarrow> bool" where
  "exact_solver solve \<longleftrightarrow>
     (\<forall>prob.
        if (\<exists>a. binary a \<and> satisfies a prob) then
          fst (solve prob) = Optimal
          \<and> (\<forall>v \<in> set (prob_vars prob).
                snd (solve prob) v = Some 0 \<or> snd (solve prob) v = Some 1)
          \<and> satisfies (value_of (snd (solve prob))) prob
          \<and> (\<forall>a. binary a \<and> satisfies a prob \<longrightarrow>
                eval_expr a (objective prob)
                  \<le> eval_expr (value_of (snd (solve prob))) (objective prob))
        else fst (solve prob) = Infeasible)"

text \<open>
  Modelled from the spec: a reference solver by exhaustive enumeration of the \<open>2 ^ n\<close>
  sets of variables (section 8 of the specification). It stands for the external solver
  wherever a concrete run is evaluated. On an infeasible problem it sets no variable.
\<close>

definition assignment_of :: "lp_var list \<Rightarrow> lp_var \<Rightarrow> real" where
  "assignment_of on v = (if v \<in> set on then 1 else 0)"

fun argmax :: "('a \<Rightarrow> real) \<Rightarrow> 'a list \<Rightarrow> 'a option" where
  "argmax f [] = None"
| "argmax f (x # xs) =
     (case argmax f xs of
        None \<Rightarrow> Some x
      | Some y \<Rightarrow> if f x < f y then Some y else Some x)"

definition enum_solve :: solver where
  "enum_solve prob =
     (case argmax (\<lambda>on. eval_expr (assignment_of on) (objective prob))
             (filter (\<lambda>on. satisfies (assignment_of on) prob) (subseqs (prob_vars prob))) of
        None \<Rightarrow> (Infeasible, \<lambda>v. None)
      | Some on \<Rightarrow>
          (Optimal, \<lambda>v. if v \<in> set (prob_vars prob) then Some (assignment_of on v) else None))"

section \<open>The specification's view of a selection\<close>

text \<open>
  A selection is a sublist of the candidates. Its sums are the left-hand sides of the
  constraints of section 4.3; a bound that is not configured imposes nothing.
\<close>

definition within_bound :: "real \<Rightarrow> real option \<Rightarrow> bool" where
  "within_bound s bound = (case bound of None \<Rightarrow> True | Some b \<Rightarrow> s \<le> b)"

definition feasible :: "ProblemConfig \<Rightarrow> real option \<Rightarrow> real option \<Rightarrow> Job list \<Rightarrow> bool" where
  "feasible cfg max_deadhead max_total_miles sel \<longleftrightarrow>
     sum_list (map hours sel) \<le> max_hours cfg
     \<and> sum_list (map pallets sel) \<le> max_pallets cfg
     \<and> within_bound (sum_list (map deadhead_miles sel)) max_deadhead
     \<and> within_bound (sum_list (map (\<lambda>job. loaded_miles job + deadhead_miles job) sel)) max_total_miles"

definition profit_sum :: "ProblemConfig \<Rightarrow> Job list \<Rightarrow> real" where
  "profit_sum cfg sel = sum_list (map (\<lambda>job. compute_job_profit job cfg) sel)"

text \<open>
  The eligibility filter of section 4.2 of the specification, stated on the profit
  of each candidate itself.
\<close>

definition eligibility_filter :: "ProblemConfig \<Rightarrow> real option \<Rightarrow> Job list \<Rightarrow> Job list" where
  "eligibility_filter cfg min_profit jobs =
     (case min_profit of
        None \<Rightarrow> jobs
      | Some m \<Rightarrow> filter (\<lambda>job. m \<le> compute_job_profit job cfg) jobs)"

section \<open>A closed form of the run\<close>

text \<open>
  The definitions of this section describe what the loops of \<open>optimize_jobs\<close> compute;
  the lemmas below prove that they do. \<open>var_of\<close> is the variable stored under the id
  of a job, \<open>profit_entry\<close> the entry of the dictionary of profits under that id,
  \<open>kept\<close> the list of jobs after the optional filter, \<open>bounds\<close> the coefficient and
  the bound of each constraint that is stated, and \<open>ilp\<close> the problem handed to the
  solver when at least one job is kept.
\<close>

definition var_of :: "Job \<Rightarrow> lp_var" where
  "var_of job = LpVariable (''x_'' @ job_id job)"

definition linear :: "(Job \<Rightarrow> real) \<Rightarrow> Job list \<Rightarrow> lp_expr" where
  "linear coef jobs = map (\<lambda>job. (coef job, var_of job)) jobs"

definition profit_entry :: "Job list \<Rightarrow> ProblemConfig \<Rightarrow> Job \<Rightarrow> real" where
  "profit_entry jobs cfg job = the (build_profits jobs cfg (job_id job))"

definition kept :: "Job list \<Rightarrow> ProblemConfig \<Rightarrow> real option \<Rightarrow> Job list" where
  "kept jobs cfg min_profit =
     (case min_profit of
        None \<Rightarrow> jobs
      | Some m \<Rightarrow> filter (\<lambda>job. m \<le> profit_entry jobs cfg job) jobs)"

definition bounds ::
  "ProblemConfig \<Rightarrow> real option \<Rightarrow> real option \<Rightarrow> ((Job \<Rightarrow> real) \<times> real) list" where
  "bounds cfg max_deadhead max_total_miles =
     [(hours, max_hours cfg), (pallets, max_pallets cfg)]
     @ (case max_deadhead of None \<Rightarrow> [] | Some b \<Rightarrow> [(deadhead_miles, b)])
     @ (case max_total_miles of
          None \<Rightarrow> []
        | Some b \<Rightarrow> [(\<lambda>job. loaded_miles job + deadhead_miles job, b)])"

definition ilp ::
  "(Job \<Rightarrow> real) \<Rightarrow> Job list \<Rightarrow> ProblemConfig \<Rightarrow> real option \<Rightarrow> real option \<Rightarrow> LpProblem" where
  "ilp p jobs cfg max_deadhead max_total_miles =
     \<lparr>objective = linear p jobs,
      constraints = map (\<lambda>(coef, b). \<lparr>lhs = linear coef jobs, rhs = b\<rparr>)
                      (bounds cfg max_deadhead max_total_miles)\<rparr>"

definition chosen_of :: "(lp_var \<Rightarrow> real option) \<Rightarrow> Job list \<Rightarrow> Job list" where
  "chosen_of val jobs = filter (\<lambda>job. selected val (var_of job)) jobs"

definition assemble ::
  "lp_solution \<Rightarrow> (Job \<Rightarrow> real) \<Rightarrow> (string \<rightharpoonup> real) \<Rightarrow> Job list \<Rightarrow> Result" where
  "assemble sol p profits jobs =
     \<lparr>status = fst sol,
      total_profit = sum_list (map p (chosen_of (snd sol) jobs)),
      total_hours = sum_list (map hours (chosen_of (snd sol) jobs)),
      total_pallets = sum_list (map pallets (chosen_of (snd sol) jobs)),
      chosen_jobs = chosen_of (snd sol) jobs,
      all_profits = profits\<rparr>"

definition run_closed ::
  "solver \<Rightarrow> Job list \<Rightarrow> ProblemConfig \<Rightarrow> real option \<Rightarrow> real option \<Rightarrow> real option
     \<Rightarrow> py_error + Result" where
  "run_closed solve jobs cfg max_deadhead max_total_miles min_profit =
     (let js = kept jobs cfg min_profit; p = profit_entry jobs cfg in
      if js = [] then
        (if feasible cfg max_deadhead max_total_miles []
         then Inr (assemble (solve new_problem) p (build_profits jobs cfg) [])
         else Inl TypeError)
      else Inr (assemble (solve (ilp p js cfg max_deadhead max_total_miles)) p
                  (build_profits jobs cfg) js))"

text \<open>The assignment that sets the variables of the jobs of a selection to 1.\<close>

definition selection_assignment :: "Job list \<Rightarrow> lp_var \<Rightarrow> real" where
  "selection_assignment sel v = (if v \<in> var_of ` set sel then 1 else 0)"

section \<open>Example inputs\<close>

text \<open>
  The first two candidates and the configuration of the scenario of section 8 of the
  specification (they are also the first two jobs of \<open>demo.py\<close>), a third candidate
  that shares the id of the first, and configurations with a tighter and with a negative
  budget of hours.
\<close>

definition job1 :: Job where
  "job1 = \<lparr>job_id = ''1'', revenue = 700, loaded_miles = 120, deadhead_miles = 0, hours = 3,
            pallets = 2, pickup_city = [], dropoff_city = [], date = [], job_notes = []\<rparr>"

definition job2 :: Job where
  "job2 = \<lparr>job_id = ''2'', revenue = 500, loaded_miles = 60, deadhead_miles = 0, hours = 2,
            pallets = 1, pickup_city = [], dropoff_city = [], date = [], job_notes = []\<rparr>"

definition job1_again :: Job where
  "job1_again = \<lparr>job_id = ''1'', revenue = 400, loaded_miles = 40, deadhead_miles = 0,
                  hours = 3 / 2, pallets = 1, pickup_city = [], dropoff_city = [], date = [],
                  job_notes = []\<rparr>"

definition demo_cfg :: ProblemConfig where
  "demo_cfg = \<lparr>max_hours = 11, max_pallets = 6, fuel_cost_per_mile = 7 / 10,
                driver_cost_per_hour = 25\<rparr>"

definition tight_cfg :: ProblemConfig where
  "tight_cfg = \<lparr>max_hours = 4, max_pallets = 6, fuel_cost_per_mile = 7 / 10,
                 driver_cost_per_hour = 25\<rparr>"

definition negative_cfg :: ProblemConfig where
  "negative_cfg = \<lparr>max_hours = - 1, max_pallets = 6, fuel_cost_per_mile = 7 / 10,
                    driver_cost_per_hour = 25\<rparr>"

section \<open>The profit of one job\<close>

text \<open>
  Claim C3. The profit of a candidate is its revenue, minus the loaded and deadhead
  distance times the cost per distance, minus the duration times the cost per unit of
  duration. The value is a function of the candidate and the configuration alone.
\<close>

theorem compute_job_profit_formula:
  "compute_job_profit c cfg =
     revenue c - (loaded_miles c + deadhead_miles c) * fuel_cost_per_mile cfg
       - hours c * driver_cost_per_hour cfg"
  by (simp add: compute_job_profit_def Let_def)

section \<open>The loops of the run\<close>

lemma foldl_upd_dom:
  "dom (foldl (\<lambda>m j. m(f j \<mapsto> g j)) m0 js) = dom m0 \<union> f ` set js"
  by (induction js arbitrary: m0) auto

lemma foldl_upd_distinct:
  "distinct (map f js) \<Longrightarrow> j \<in> set js \<Longrightarrow> foldl (\<lambda>m j. m(f j \<mapsto> g j)) m0 js (f j) = Some (g j)"
proof (induction js rule: rev_induct)
  case Nil
  then show ?case by simp
next
  case (snoc x xs)
  show ?case
  proof (cases "j = x")
    case True
    then show ?thesis by simp
  next
    case False
    with snoc.prems have jin: "j \<in> set xs" by simp
    from snoc.prems have "f x \<notin> f ` set xs" by simp
    with jin have "f j \<noteq> f x" by (metis imageI)
    moreover from snoc.prems have "distinct (map f xs)" by simp
    ultimately show ?thesis using snoc.IH jin by simp
  qed
qed

lemma foldl_upd_same:
  assumes "\<And>j j'. f j = f j' \<Longrightarrow> g j = g j'" 
  shows "j \<in> set js \<Longrightarrow> foldl (\<lambda>m j. m(f j \<mapsto> g j)) m0 js (f j) = Some (g j)"
proof (induction js rule: rev_induct)
  case Nil
  then show ?case by simp
next
  case (snoc x xs)
  show ?case
  proof (cases "f j = f x")
    case True
    then have "g j = g x" by (rule assms)
    with True show ?thesis by simp
  next
    case False
    with snoc.prems have jin: "j \<in> set xs" by auto
    then show ?thesis using snoc.IH False by simp
  qed
qed

lemma build_profits_dom: "dom (build_profits jobs cfg) = job_id ` set jobs"
  by (simp add: build_profits_def foldl_upd_dom)

lemma build_profits_distinct:
  "distinct (map job_id jobs) \<Longrightarrow> j \<in> set jobs \<Longrightarrow> build_profits jobs cfg (job_id j) = Some (compute_job_profit j cfg)"
  unfolding build_profits_def by (rule foldl_upd_distinct)

lemma build_vars_lookup:
  "j \<in> set jobs \<Longrightarrow> build_vars jobs (job_id j) = Some (LpVariable (''x_'' @ job_id j))"
  unfolding build_vars_def
  by (rule foldl_upd_same[where f = job_id and g = "\<lambda>j. LpVariable (''x_'' @ job_id j)"]) simp_all


lemma filter_loop_eq:
  "(\<And>j. j \<in> set js \<Longrightarrow> profits (job_id j) = Some (p j)) \<Longrightarrow>
   filter_loop profits m acc js = Inr (acc @ filter (\<lambda>j. m \<le> p j) js)"
  by (induction js arbitrary: acc) (simp_all add: bind_err_def getitem_def)

lemma lp_terms_eq:
  "(\<And>j. j \<in> set js \<Longrightarrow> coef j = Inr (c j)) \<Longrightarrow>
   (\<And>j. j \<in> set js \<Longrightarrow> x (job_id j) = Some (var_of j)) \<Longrightarrow>
   lp_terms coef x js = Inr (linear c js)"
  by (induction js) (simp_all add: bind_err_def getitem_def linear_def)

lemma add_constraint_eq:
  assumes "\<And>j. j \<in> set js \<Longrightarrow> x (job_id j) = Some (var_of j)"
  shows "add_constraint coef x js b prob =
     (if js = [] then (if 0 \<le> b then Inr prob else Inl TypeError)
      else Inr (prob\<lparr>constraints := constraints prob @ [\<lparr>lhs = linear coef js, rhs = b\<rparr>]\<rparr>))"
proof -
  have "lp_terms (\<lambda>job. Inr (coef job)) x js = Inr (linear coef js)"
    by (rule lp_terms_eq) (simp_all add: assms)
  then show ?thesis
    by (simp add: add_constraint_def bind_err_def sum_terms_def py_le_def iadd_def linear_def)
qed

lemma extract_loop_eq:
  "(\<And>j. j \<in> set js \<Longrightarrow> x (job_id j) = Some (var_of j)) \<Longrightarrow>
   (\<And>j. j \<in> set js \<Longrightarrow> profits (job_id j) = Some (p j)) \<Longrightarrow>
   extract_loop val x profits (ch, tp, th, tpa) js =
     Inr (ch @ chosen_of val js,
          tp + sum_list (map p (chosen_of val js)),
          th + sum_list (map hours (chosen_of val js)),
          tpa + sum_list (map pallets (chosen_of val js)))"
  by (induction js arbitrary: ch tp th tpa)
     (simp_all add: bind_err_def getitem_def chosen_of_def)


lemma add_optional_constraint_eq:
  assumes "\<And>j. j \<in> set js \<Longrightarrow> x (job_id j) = Some (var_of j)"
  shows "add_optional_constraint coef x js b prob =
     (if js = [] then (if within_bound 0 b then Inr prob else Inl TypeError)
      else Inr (prob\<lparr>constraints := constraints prob
                  @ (case b of None \<Rightarrow> [] | Some b' \<Rightarrow> [\<lparr>lhs = linear coef js, rhs = b'\<rparr>])\<rparr>))"
  by (cases b) (simp_all add: add_optional_constraint_def within_bound_def add_constraint_eq [OF assms])

lemma add_constraint_Nil:
  "add_constraint coef x [] b prob = (if 0 \<le> b then Inr prob else Inl TypeError)"
  by (simp add: add_constraint_def bind_err_def sum_terms_def py_le_def iadd_def)

lemma add_optional_constraint_Nil:
  "add_optional_constraint coef x [] b prob =
     (if within_bound 0 b then Inr prob else Inl TypeError)"
  by (cases b) (simp_all add: add_optional_constraint_def within_bound_def add_constraint_Nil)

lemma build_problem_empty:
  "build_problem profits x [] cfg md mt =
     (if feasible cfg md mt [] then Inr new_problem else Inl TypeError)"
  by (simp add: build_problem_def bind_err_def sum_terms_def set_objective_def new_problem_def
        add_constraint_Nil add_optional_constraint_Nil feasible_def)

lemma build_problem_nonempty:
  assumes x: "\<And>j. j \<in> set js \<Longrightarrow> x (job_id j) = Some (var_of j)"
    and p: "\<And>j. j \<in> set js \<Longrightarrow> profits (job_id j) = Some (p j)"
    and ne: "js \<noteq> []"
  shows "build_problem profits x js cfg md mt = Inr (ilp p js cfg md mt)"
proof -
  have obj: "lp_terms (\<lambda>job. getitem profits (job_id job)) x js = Inr (linear p js)"
    by (rule lp_terms_eq) (simp_all add: getitem_def p x)
  have lne: "linear p js \<noteq> []" using ne by (simp add: linear_def)
  show ?thesis
    using ne lne
    by (cases md; cases mt)
       (simp_all add: build_problem_def obj bind_err_def sum_terms_def set_objective_def
          new_problem_def add_constraint_eq [OF x] add_optional_constraint_eq [OF x]
          ilp_def bounds_def)
qed


lemma profit_entry_lookup:
  "j \<in> set jobs \<Longrightarrow> build_profits jobs cfg (job_id j) = Some (profit_entry jobs cfg j)"
proof -
  assume "j \<in> set jobs"
  then have "job_id j \<in> dom (build_profits jobs cfg)"
    by (simp add: build_profits_dom)
  then show ?thesis by (auto simp: profit_entry_def)
qed

lemma eligible_jobs_eq:
  "eligible_jobs (build_profits jobs cfg) mp jobs = Inr (kept jobs cfg mp)"
proof (cases mp)
  case None
  then show ?thesis by (simp add: eligible_jobs_def kept_def)
next
  case (Some m)
  have "filter_loop (build_profits jobs cfg) m [] jobs
          = Inr ([] @ filter (\<lambda>j. m \<le> profit_entry jobs cfg j) jobs)"
    by (rule filter_loop_eq) (rule profit_entry_lookup)
  with Some show ?thesis by (simp add: eligible_jobs_def kept_def)
qed

lemma set_kept: "set (kept jobs cfg mp) \<subseteq> set jobs"
  by (cases mp) (auto simp: kept_def)

lemma build_vars_var_of: "j \<in> set js \<Longrightarrow> build_vars js (job_id j) = Some (var_of j)"
  by (simp add: build_vars_lookup var_of_def)

lemma extract_loop_start:
  assumes "\<And>j. j \<in> set js \<Longrightarrow> x (job_id j) = Some (var_of j)"
    and "\<And>j. j \<in> set js \<Longrightarrow> profits (job_id j) = Some (p j)"
  shows "extract_loop val x profits ([], 0, 0, 0) js =
     Inr (chosen_of val js, sum_list (map p (chosen_of val js)),
          sum_list (map hours (chosen_of val js)), sum_list (map pallets (chosen_of val js)))"
  using extract_loop_eq [of js x profits p val "[]" 0 0 0, OF assms] by simp

lemma optimize_jobs_closed:
  "optimize_jobs solve jobs cfg md mt mp = run_closed solve jobs cfg md mt mp"
proof -
  let ?profits = "build_profits jobs cfg"
  let ?p = "profit_entry jobs cfg"
  let ?js = "kept jobs cfg mp"
  let ?x = "build_vars ?js"
  have x: "\<And>j. j \<in> set ?js \<Longrightarrow> ?x (job_id j) = Some (var_of j)"
    by (rule build_vars_var_of)
  have p: "\<And>j. j \<in> set ?js \<Longrightarrow> ?profits (job_id j) = Some (?p j)"
    using set_kept [of jobs cfg mp] by (auto intro: profit_entry_lookup)
  have ex: "\<And>val. extract_loop val ?x ?profits ([], 0, 0, 0) ?js =
     Inr (chosen_of val ?js, sum_list (map ?p (chosen_of val ?js)),
          sum_list (map hours (chosen_of val ?js)), sum_list (map pallets (chosen_of val ?js)))"
    by (rule extract_loop_start [where p = "?p"]) (simp_all add: x p)
  show ?thesis
  proof (cases "?js = []")
    case True
    then show ?thesis
      by (simp add: optimize_jobs_def run_closed_def Let_def eligible_jobs_eq bind_err_def
          build_problem_empty assemble_def chosen_of_def split_beta)
  next
    case False
    have bp: "build_problem ?profits ?x ?js cfg md mt = Inr (ilp ?p ?js cfg md mt)"
      by (rule build_problem_nonempty [where p = "?p"]) (simp_all add: x p False)
    show ?thesis
      using False
      by (simp add: optimize_jobs_def run_closed_def Let_def eligible_jobs_eq bind_err_def
          bp ex assemble_def split_beta)
  qed
qed

section \<open>Runs on the example inputs, and the eligibility filter\<close>

lemmas eval_defs = optimize_jobs_closed run_closed_def kept_def profit_entry_def build_profits_def
  compute_job_profit_def ilp_def bounds_def feasible_def within_bound_def new_problem_def
  linear_def var_of_def enum_solve_def prob_vars_def satisfies_def eval_expr_def
  assignment_of_def assemble_def chosen_of_def selected_def Let_def


lemma run_tight:
  "optimize_jobs enum_solve [job1, job2] tight_cfg None None None =
     Inr \<lparr>status = Optimal, total_profit = 541, total_hours = 3, total_pallets = 2,
          chosen_jobs = [job1], all_profits = [''1'' \<mapsto> 541, ''2'' \<mapsto> 408]\<rparr>"
  by (simp add: eval_defs job1_def job2_def tight_cfg_def)

lemma run_floor:
  "optimize_jobs enum_solve [job1, job2] demo_cfg None None (Some 500) =
     Inr \<lparr>status = Optimal, total_profit = 541, total_hours = 3, total_pallets = 2,
          chosen_jobs = [job1], all_profits = [''1'' \<mapsto> 541, ''2'' \<mapsto> 408]\<rparr>"
  by (simp add: eval_defs job1_def job2_def demo_cfg_def)

lemma run_negative:
  "optimize_jobs enum_solve [job1, job2] negative_cfg None None None =
     Inr \<lparr>status = Infeasible, total_profit = 0, total_hours = 0, total_pallets = 0,
          chosen_jobs = [], all_profits = [''1'' \<mapsto> 541, ''2'' \<mapsto> 408]\<rparr>"
  by (simp add: eval_defs job1_def job2_def negative_cfg_def)

lemma run_empty_negative:
  "optimize_jobs enum_solve [] negative_cfg None None None = Inl TypeError"
  by (simp add: eval_defs negative_cfg_def)

lemma run_floor_negative:
  "optimize_jobs enum_solve [job1, job2] negative_cfg None None (Some 1000) = Inl TypeError"
  by (simp add: eval_defs job1_def job2_def negative_cfg_def)

lemma run_duplicate:
  "optimize_jobs enum_solve [job1, job1_again] demo_cfg None None None =
     Inr \<lparr>status = Optimal, total_profit = 669, total_hours = 9 / 2, total_pallets = 3,
          chosen_jobs = [job1, job1_again], all_profits = [''1'' \<mapsto> 669 / 2]\<rparr>"
  by (simp add: eval_defs job1_def job1_again_def demo_cfg_def)

lemma run_closed_Inr:
  assumes "optimize_jobs solve jobs cfg md mt mp = Inr r"
  shows "\<exists>prob. r = assemble (solve prob) (profit_entry jobs cfg) (build_profits jobs cfg)
                       (kept jobs cfg mp)"
  using assms
  by (auto simp: optimize_jobs_closed run_closed_def Let_def split: if_splits)

lemma profit_entry_distinct:
  "distinct (map job_id jobs) \<Longrightarrow> j \<in> set jobs \<Longrightarrow>
   profit_entry jobs cfg j = compute_job_profit j cfg"
  by (simp add: profit_entry_def build_profits_distinct)

lemma kept_distinct:
  assumes "distinct (map job_id jobs)"
  shows "kept jobs cfg mp = eligibility_filter cfg mp jobs"
proof (cases mp)
  case None
  then show ?thesis by (simp add: kept_def eligibility_filter_def)
next
  case (Some m)
  have "filter (\<lambda>job. m \<le> profit_entry jobs cfg job) jobs
          = filter (\<lambda>job. m \<le> compute_job_profit job cfg) jobs"
    by (rule filter_cong) (simp_all add: profit_entry_distinct [OF assms])
  with Some show ?thesis by (simp add: kept_def eligibility_filter_def)
qed

lemma set_chosen_of: "set (chosen_of val js) \<subseteq> set js"
  by (auto simp: chosen_of_def)

lemma sum_profit_entry_distinct:
  assumes "distinct (map job_id jobs)" and "set sel \<subseteq> set jobs"
  shows "sum_list (map (profit_entry jobs cfg) sel) = profit_sum cfg sel"
proof -
  have "map (profit_entry jobs cfg) sel = map (\<lambda>job. compute_job_profit job cfg) sel"
    using assms by (intro map_cong) (auto simp: profit_entry_distinct)
  then show ?thesis unfolding profit_sum_def by (rule arg_cong [where f = sum_list])
qed

text \<open>
  Claim C5, as stated, fails on a list with a repeated id: the filter reads the profit
  through the dictionary keyed by id, which holds the profit of the last job with that id.
  With a floor of 500 the first job below, of profit 334.5, is kept under the entry 541 of
  the second, and is chosen.
\<close>

theorem filter_repeated_ids_counterexample:
  "compute_job_profit job1_again demo_cfg < 500
   \<and> eligible_jobs (build_profits [job1_again, job1] demo_cfg) (Some 500) [job1_again, job1]
       = Inr [job1_again, job1]
   \<and> optimize_jobs enum_solve [job1_again, job1] demo_cfg None None (Some 500) =
       Inr \<lparr>status = Optimal, total_profit = 1082, total_hours = 9 / 2, total_pallets = 3,
            chosen_jobs = [job1_again, job1], all_profits = [''1'' \<mapsto> 541]\<rparr>"
proof -
  have "compute_job_profit job1_again demo_cfg < 500"
    by (simp add: compute_job_profit_def job1_again_def demo_cfg_def)
  moreover have "eligible_jobs (build_profits [job1_again, job1] demo_cfg) (Some 500)
      [job1_again, job1] = Inr [job1_again, job1]"
    by (simp add: eligible_jobs_def build_profits_def compute_job_profit_def bind_err_def
        getitem_def job1_def job1_again_def demo_cfg_def)
  moreover have "optimize_jobs enum_solve [job1_again, job1] demo_cfg None None (Some 500) =
       Inr \<lparr>status = Optimal, total_profit = 1082, total_hours = 9 / 2, total_pallets = 3,
            chosen_jobs = [job1_again, job1], all_profits = [''1'' \<mapsto> 541]\<rparr>"
    by (simp add: eval_defs job1_def job1_again_def demo_cfg_def)
  ultimately show ?thesis by simp
qed

text \<open>
  Claim C5, amended. When the ids of the candidates are unique and a floor is set, the
  jobs handed to the solver are exactly the input jobs whose profit is at least the floor,
  in their order, and a job below the floor is never chosen; without a floor the list is
  handed over unchanged.
\<close>

theorem eligibility_filter_hard:
  assumes "distinct (map job_id jobs)"
  shows "eligible_jobs (build_profits jobs cfg) (Some m) jobs
           = Inr (filter (\<lambda>job. m \<le> compute_job_profit job cfg) jobs)
         \<and> eligible_jobs (build_profits jobs cfg) None jobs = Inr jobs
         \<and> (\<forall>r. optimize_jobs solve jobs cfg md mt (Some m) = Inr r \<longrightarrow>
               (\<forall>job \<in> set (chosen_jobs r).
                   job \<in> set jobs \<and> m \<le> compute_job_profit job cfg))"
proof (intro conjI allI impI)
  show "eligible_jobs (build_profits jobs cfg) (Some m) jobs
           = Inr (filter (\<lambda>job. m \<le> compute_job_profit job cfg) jobs)"
    using kept_distinct [OF assms, of cfg "Some m"]
    by (simp add: eligible_jobs_eq eligibility_filter_def)
  show "eligible_jobs (build_profits jobs cfg) None jobs = Inr jobs"
    by (simp add: eligible_jobs_def)
next
  fix r
  assume "optimize_jobs solve jobs cfg md mt (Some m) = Inr r"
  then obtain prob where "r = assemble (solve prob) (profit_entry jobs cfg)
      (build_profits jobs cfg) (kept jobs cfg (Some m))"
    using run_closed_Inr by blast
  then have "set (chosen_jobs r) \<subseteq> set (kept jobs cfg (Some m))"
    by (simp add: assemble_def set_chosen_of)
  then show "\<forall>job \<in> set (chosen_jobs r). job \<in> set jobs \<and> m \<le> compute_job_profit job cfg"
    by (auto simp: kept_distinct [OF assms] eligibility_filter_def)
qed

theorem eligibility_filter_hard_witness:
  "eligible_jobs (build_profits [job1, job2] demo_cfg) (Some 500) [job1, job2] = Inr [job1]
   \<and> eligible_jobs (build_profits [job1, job2] demo_cfg) None [job1, job2] = Inr [job1, job2]
   \<and> optimize_jobs enum_solve [job1, job2] demo_cfg None None (Some 500)
       = Inr \<lparr>status = Optimal, total_profit = 541, total_hours = 3, total_pallets = 2,
              chosen_jobs = [job1], all_profits = [''1'' \<mapsto> 541, ''2'' \<mapsto> 408]\<rparr>
   \<and> 500 \<le> compute_job_profit job1 demo_cfg
   \<and> \<not> 500 \<le> compute_job_profit job2 demo_cfg"
proof -
  have d: "distinct (map job_id [job1, job2])"
    by (simp add: job1_def job2_def)
  have p: "compute_job_profit job1 demo_cfg = 541" "compute_job_profit job2 demo_cfg = 408"
    by (simp_all add: compute_job_profit_def job1_def job2_def demo_cfg_def)
  from eligibility_filter_hard [OF d, of demo_cfg 500 enum_solve None None]
  show ?thesis using run_floor by (simp add: p)
qed

section \<open>What the result reports\<close>

text \<open>
  Claim C7. The profit mapping of the result has an entry for every candidate of the
  original input list, chosen or not, kept by the filter or not, and the entry is the
  profit of that candidate; it has no other entry. Ids are unique.
\<close>

theorem all_profits_complete:
  assumes "distinct (map job_id jobs)"
    and "optimize_jobs solve jobs cfg md mt mp = Inr r"
  shows "(\<forall>job \<in> set jobs. all_profits r (job_id job) = Some (compute_job_profit job cfg))
         \<and> dom (all_profits r) = job_id ` set jobs"
proof -
  from assms(2) obtain prob where "r = assemble (solve prob) (profit_entry jobs cfg)
      (build_profits jobs cfg) (kept jobs cfg mp)"
    using run_closed_Inr by blast
  then have "all_profits r = build_profits jobs cfg"
    by (simp add: assemble_def)
  then show ?thesis
    by (simp add: build_profits_dom build_profits_distinct [OF assms(1)])
qed

theorem all_profits_complete_witness:
  "all_profits \<lparr>status = Optimal, total_profit = 541, total_hours = 3, total_pallets = 2,
          chosen_jobs = [job1], all_profits = [''1'' \<mapsto> 541, ''2'' \<mapsto> 408]\<rparr> (job_id job2)
     = Some (compute_job_profit job2 demo_cfg)
   \<and> compute_job_profit job2 demo_cfg = 408"
proof -
  have d: "distinct (map job_id [job1, job2])"
    by (simp add: job1_def job2_def)
  from all_profits_complete [OF d run_floor]
  show ?thesis
    by (simp add: compute_job_profit_def job2_def demo_cfg_def)
qed

text \<open>
  Claim C10. The chosen jobs are a subsequence of the jobs kept by the filter, which are a
  subsequence of the input list: every chosen job is a kept input job, the relative order
  is the one of the input, and a job is chosen at most as often as it occurs in the input.
\<close>

theorem chosen_jobs_subsequence:
  assumes "optimize_jobs solve jobs cfg md mt mp = Inr r"
  shows "\<exists>js. eligible_jobs (build_profits jobs cfg) mp jobs = Inr js
           \<and> subseq (chosen_jobs r) js \<and> subseq js jobs
           \<and> (distinct jobs \<longrightarrow> distinct (chosen_jobs r))
           \<and> (distinct (map job_id jobs) \<longrightarrow> distinct (map job_id (chosen_jobs r)))"
proof -
  from assms obtain prob where r: "r = assemble (solve prob) (profit_entry jobs cfg)
      (build_profits jobs cfg) (kept jobs cfg mp)"
    using run_closed_Inr by blast
  have c: "chosen_jobs r = filter (\<lambda>job. selected (snd (solve prob)) (var_of job)) (kept jobs cfg mp)"
    by (simp add: r assemble_def chosen_of_def)
  have k: "\<exists>P. kept jobs cfg mp = filter P jobs"
  proof (cases mp)
    case None
    then show ?thesis
      by (intro exI [where x = "\<lambda>_. True"]) (simp add: kept_def)
  next
    case (Some m)
    then show ?thesis
      by (intro exI [where x = "\<lambda>job. m \<le> profit_entry jobs cfg job"]) (simp add: kept_def)
  qed
  then obtain P where P: "kept jobs cfg mp = filter P jobs" ..
  have "subseq (chosen_jobs r) (kept jobs cfg mp)" by (simp add: c)
  moreover have "subseq (kept jobs cfg mp) jobs" by (simp add: P)
  moreover have "distinct jobs \<longrightarrow> distinct (chosen_jobs r)" by (simp add: c P)
  moreover have "distinct (map job_id jobs) \<longrightarrow> distinct (map job_id (chosen_jobs r))"
    by (simp add: c P distinct_map_filter)
  ultimately show ?thesis by (simp add: eligible_jobs_eq)
qed

theorem chosen_jobs_subsequence_witness:
  "\<exists>js. eligible_jobs (build_profits [job1, job2] tight_cfg) None [job1, job2] = Inr js
      \<and> subseq [job1] js \<and> subseq js [job1, job2]"
  using chosen_jobs_subsequence [OF run_tight] by simp


text \<open>
  Claim C9, as stated, fails on a list with a repeated id: the total profit, 669, is twice
  the entry of the profit mapping under the shared id, while the profits of the two chosen
  jobs sum to 875.5.
\<close>

theorem totals_repeated_ids_counterexample:
  "optimize_jobs enum_solve [job1, job1_again] demo_cfg None None None =
       Inr \<lparr>status = Optimal, total_profit = 669, total_hours = 9 / 2, total_pallets = 3,
            chosen_jobs = [job1, job1_again], all_profits = [''1'' \<mapsto> 669 / 2]\<rparr>
   \<and> profit_sum demo_cfg [job1, job1_again] = 1751 / 2
   \<and> total_profit \<lparr>status = Optimal, total_profit = 669, total_hours = 9 / 2,
         total_pallets = 3, chosen_jobs = [job1, job1_again],
         all_profits = [''1'' \<mapsto> (669 / 2 :: real)]\<rparr>
       \<noteq> profit_sum demo_cfg [job1, job1_again]"
proof -
  have "profit_sum demo_cfg [job1, job1_again] = 1751 / 2"
    by (simp add: profit_sum_def compute_job_profit_def job1_def job1_again_def demo_cfg_def)
  with run_duplicate show ?thesis by simp
qed

text \<open>
  Claim C9, amended. For every run that returns, the totals of hours and of pallets are
  the sums over the chosen jobs, and the total profit is the sum, over the chosen jobs, of
  the entries of the profit mapping under their ids; when the ids of the candidates are
  unique, the total profit is the sum of the profits of the chosen jobs. The chosen jobs
  are the kept jobs whose variable the solver set above one half, and the status is the
  one the solver reported: the assembly decides nothing.
\<close>

theorem totals_are_sums:
  assumes "optimize_jobs solve jobs cfg md mt mp = Inr r"
  shows "total_hours r = sum_list (map hours (chosen_jobs r))
         \<and> total_pallets r = sum_list (map pallets (chosen_jobs r))
         \<and> (\<forall>job \<in> set (chosen_jobs r). all_profits r (job_id job) \<noteq> None)
         \<and> total_profit r = sum_list (map (\<lambda>job. the (all_profits r (job_id job))) (chosen_jobs r))
         \<and> (distinct (map job_id jobs) \<longrightarrow> total_profit r = profit_sum cfg (chosen_jobs r))
         \<and> (\<exists>prob js. eligible_jobs (build_profits jobs cfg) mp jobs = Inr js
               \<and> status r = fst (solve prob)
               \<and> chosen_jobs r = filter (\<lambda>job. selected (snd (solve prob)) (var_of job)) js)"
proof -
  from assms obtain prob where r: "r = assemble (solve prob) (profit_entry jobs cfg)
      (build_profits jobs cfg) (kept jobs cfg mp)"
    using run_closed_Inr by blast
  let ?ch = "chosen_of (snd (solve prob)) (kept jobs cfg mp)"
  have ch: "chosen_jobs r = ?ch" by (simp add: r assemble_def)
  have sub: "set ?ch \<subseteq> set jobs"
    using set_chosen_of [of "snd (solve prob)" "kept jobs cfg mp"] set_kept [of jobs cfg mp]
    by blast
  have h: "total_hours r = sum_list (map hours (chosen_jobs r))"
    by (simp add: r assemble_def)
  have pa: "total_pallets r = sum_list (map pallets (chosen_jobs r))"
    by (simp add: r assemble_def)
  have ap: "all_profits r = build_profits jobs cfg"
    by (simp add: r assemble_def)
  have ne: "\<forall>job \<in> set (chosen_jobs r). all_profits r (job_id job) \<noteq> None"
    using sub by (auto simp: ch ap profit_entry_lookup)
  have "total_profit r = sum_list (map (profit_entry jobs cfg) (chosen_jobs r))"
    by (simp add: r assemble_def)
  then have tp: "total_profit r
      = sum_list (map (\<lambda>job. the (all_profits r (job_id job))) (chosen_jobs r))"
    by (simp add: ap profit_entry_def [abs_def])
  have d: "distinct (map job_id jobs) \<longrightarrow> total_profit r = profit_sum cfg (chosen_jobs r)"
    using sub by (simp add: r assemble_def sum_profit_entry_distinct)
  have e: "\<exists>prob js. eligible_jobs (build_profits jobs cfg) mp jobs = Inr js
               \<and> status r = fst (solve prob)
               \<and> chosen_jobs r = filter (\<lambda>job. selected (snd (solve prob)) (var_of job)) js"
    by (intro exI [where x = prob] exI [where x = "kept jobs cfg mp"])
       (simp add: eligible_jobs_eq r assemble_def chosen_of_def)
  from h pa ne tp d e show ?thesis by blast
qed

theorem totals_are_sums_witness:
  "(3::real) = sum_list (map hours [job1]) \<and> (2::real) = sum_list (map pallets [job1])
   \<and> (541::real) = profit_sum tight_cfg [job1]
   \<and> (541::real) = the ([''1'' \<mapsto> 541, ''2'' \<mapsto> 408] (job_id job1))"
proof -
  have d: "distinct (map job_id [job1, job2])"
    by (simp add: job1_def job2_def)
  from totals_are_sums [OF run_tight] d
  show ?thesis by simp
qed

section \<open>Selections and assignments\<close>

lemma eval_linear:
  "eval_expr a (linear c js) = sum_list (map (\<lambda>j. c j * a (var_of j)) js)"
  by (simp add: eval_expr_def linear_def comp_def)

lemma eval_linear_indicator:
  "(\<And>j. j \<in> set js \<Longrightarrow> a (var_of j) = (if P j then 1 else 0)) \<Longrightarrow>
   eval_expr a (linear c js) = sum_list (map c (filter P js))"
  unfolding eval_linear by (induction js) simp_all

lemma satisfies_ilp:
  "satisfies a (ilp p js cfg md mt) \<longleftrightarrow>
     (\<forall>(c, b) \<in> set (bounds cfg md mt). eval_expr a (linear c js) \<le> b)"
  by (auto simp: satisfies_def ilp_def list_all_iff)

lemma feasible_bounds:
  "feasible cfg md mt sel \<longleftrightarrow>
     (\<forall>(c, b) \<in> set (bounds cfg md mt). sum_list (map c sel) \<le> b)"
  by (cases md; cases mt) (auto simp: feasible_def bounds_def within_bound_def)

lemma satisfies_indicator:
  assumes "\<And>j. j \<in> set js \<Longrightarrow> a (var_of j) = (if P j then 1 else 0)"
  shows "satisfies a (ilp p js cfg md mt) \<longleftrightarrow> feasible cfg md mt (filter P js)"
  by (simp add: satisfies_ilp feasible_bounds eval_linear_indicator [of js a P, OF assms])

lemma objective_indicator:
  assumes "\<And>j. j \<in> set js \<Longrightarrow> a (var_of j) = (if P j then 1 else 0)"
  shows "eval_expr a (objective (ilp p js cfg md mt)) = sum_list (map p (filter P js))"
  by (simp add: ilp_def eval_linear_indicator [of js a P, OF assms])

lemma var_of_in_prob_vars:
  "j \<in> set js \<Longrightarrow> var_of j \<in> set (prob_vars (ilp p js cfg md mt))"
  by (auto simp: prob_vars_def ilp_def linear_def image_iff)

lemma value_of_binary:
  "val v = Some 0 \<or> val v = Some 1 \<Longrightarrow> value_of val v = (if selected val v then 1 else 0)"
  by (auto simp: value_of_def selected_def)

lemma exact_solver_feasible:
  assumes "exact_solver solve" and "binary a" and "satisfies a prob"
  shows "fst (solve prob) = Optimal"
    and "\<And>v. v \<in> set (prob_vars prob) \<Longrightarrow> snd (solve prob) v = Some 0 \<or> snd (solve prob) v = Some 1"
    and "satisfies (value_of (snd (solve prob))) prob"
    and "\<And>a'. binary a' \<Longrightarrow> satisfies a' prob \<Longrightarrow>
           eval_expr a' (objective prob) \<le> eval_expr (value_of (snd (solve prob))) (objective prob)"
proof -
  have ex: "\<exists>a. binary a \<and> satisfies a prob" using assms(2,3) by blast
  from assms(1) have "if (\<exists>a. binary a \<and> satisfies a prob) then
          fst (solve prob) = Optimal
          \<and> (\<forall>v \<in> set (prob_vars prob).
                snd (solve prob) v = Some 0 \<or> snd (solve prob) v = Some 1)
          \<and> satisfies (value_of (snd (solve prob))) prob
          \<and> (\<forall>a. binary a \<and> satisfies a prob \<longrightarrow>
                eval_expr a (objective prob)
                  \<le> eval_expr (value_of (snd (solve prob))) (objective prob))
        else fst (solve prob) = Infeasible"
    unfolding exact_solver_def by blast
  with ex have *: "fst (solve prob) = Optimal
          \<and> (\<forall>v \<in> set (prob_vars prob).
                snd (solve prob) v = Some 0 \<or> snd (solve prob) v = Some 1)
          \<and> satisfies (value_of (snd (solve prob))) prob
          \<and> (\<forall>a. binary a \<and> satisfies a prob \<longrightarrow>
                eval_expr a (objective prob)
                  \<le> eval_expr (value_of (snd (solve prob))) (objective prob))"
    by simp
  from * show "fst (solve prob) = Optimal" by blast
  from * show "\<And>v. v \<in> set (prob_vars prob) \<Longrightarrow> snd (solve prob) v = Some 0 \<or> snd (solve prob) v = Some 1"
    by blast
  from * show "satisfies (value_of (snd (solve prob))) prob" by blast
  from * show "\<And>a'. binary a' \<Longrightarrow> satisfies a' prob \<Longrightarrow>
           eval_expr a' (objective prob) \<le> eval_expr (value_of (snd (solve prob))) (objective prob)"
    by blast
qed

lemma exact_solver_infeasible:
  assumes "exact_solver solve" and "\<not> (\<exists>a. binary a \<and> satisfies a prob)"
  shows "fst (solve prob) = Infeasible"
proof -
  from assms(1) have "if (\<exists>a. binary a \<and> satisfies a prob) then
          fst (solve prob) = Optimal
          \<and> (\<forall>v \<in> set (prob_vars prob).
                snd (solve prob) v = Some 0 \<or> snd (solve prob) v = Some 1)
          \<and> satisfies (value_of (snd (solve prob))) prob
          \<and> (\<forall>a. binary a \<and> satisfies a prob \<longrightarrow>
                eval_expr a (objective prob)
                  \<le> eval_expr (value_of (snd (solve prob))) (objective prob))
        else fst (solve prob) = Infeasible"
    unfolding exact_solver_def by blast
  with assms(2) show ?thesis by simp
qed

lemma exact_solver_status:
  assumes "exact_solver solve"
  shows "fst (solve prob) = Optimal \<longleftrightarrow> (\<exists>a. binary a \<and> satisfies a prob)"
proof
  assume opt: "fst (solve prob) = Optimal"
  show "\<exists>a. binary a \<and> satisfies a prob"
  proof (rule ccontr)
    assume "\<not> (\<exists>a. binary a \<and> satisfies a prob)"
    from exact_solver_infeasible [OF assms this] opt show False by simp
  qed
next
  assume "\<exists>a. binary a \<and> satisfies a prob"
  then obtain a where "binary a" "satisfies a prob" by blast
  from exact_solver_feasible(1) [OF assms this] show "fst (solve prob) = Optimal" .
qed

lemma solver_selection:
  assumes "exact_solver solve" and "binary a" and "satisfies a (ilp p js cfg md mt)"
  shows "feasible cfg md mt (chosen_of (snd (solve (ilp p js cfg md mt))) js)"
    and "eval_expr (value_of (snd (solve (ilp p js cfg md mt)))) (objective (ilp p js cfg md mt))
           = sum_list (map p (chosen_of (snd (solve (ilp p js cfg md mt))) js))"
proof -
  let ?prob = "ilp p js cfg md mt"
  let ?val = "snd (solve ?prob)"
  have ind: "\<And>j. j \<in> set js \<Longrightarrow>
      value_of ?val (var_of j) = (if selected ?val (var_of j) then 1 else 0)"
    by (rule value_of_binary, rule exact_solver_feasible(2) [OF assms])
       (rule var_of_in_prob_vars)
  have "satisfies (value_of ?val) ?prob"
    by (rule exact_solver_feasible(3) [OF assms])
  then show "feasible cfg md mt (chosen_of ?val js)"
    unfolding chosen_of_def
    using satisfies_indicator [of js "value_of ?val" "\<lambda>j. selected ?val (var_of j)" p cfg md mt] ind
    by blast
  show "eval_expr (value_of ?val) (objective ?prob) = sum_list (map p (chosen_of ?val js))"
    unfolding chosen_of_def
    using objective_indicator [of js "value_of ?val" "\<lambda>j. selected ?val (var_of j)" p cfg md mt] ind
    by blast
qed

lemma binary_selection_assignment: "binary (selection_assignment sel)"
  by (simp add: binary_def selection_assignment_def)

lemma var_of_inject: "var_of j = var_of t \<longleftrightarrow> job_id j = job_id t"
  by (simp add: var_of_def)

lemma selection_assignment_member:
  assumes "distinct (map job_id js)" and "set sel \<subseteq> set js" and "j \<in> set js"
  shows "selection_assignment sel (var_of j) = (if j \<in> set sel then 1 else 0)"
proof -
  have inj: "inj_on job_id (set js)" using assms(1) by (simp add: distinct_map)
  have "var_of j \<in> var_of ` set sel \<longleftrightarrow> j \<in> set sel"
  proof
    assume "var_of j \<in> var_of ` set sel"
    then obtain t where t: "t \<in> set sel" "job_id j = job_id t"
      by (auto simp: var_of_inject)
    with assms(2) have "t \<in> set js" by blast
    with inj assms(3) t(2) have "j = t" by (auto dest: inj_onD)
    with t(1) show "j \<in> set sel" by simp
  qed simp
  then show ?thesis by (simp add: selection_assignment_def)
qed

lemma filter_mem_subseq:
  "subseq sel xs \<Longrightarrow> distinct xs \<Longrightarrow> filter (\<lambda>j. j \<in> set sel) xs = sel"
proof (induction rule: list_emb.induct)
  case (list_emb_Nil ys)
  then show ?case by simp
next
  case (list_emb_Cons xs ys y)
  from list_emb_Cons.hyps(1) have "set xs \<subseteq> set ys"
    by (auto dest: list_emb_set)
  with list_emb_Cons show ?case by auto
next
  case (list_emb_Cons2 x y xs ys)
  then have xy: "x = y" and d: "distinct ys" and ny: "y \<notin> set ys" by simp_all
  have "filter (\<lambda>j. j \<in> set (x # xs)) ys = filter (\<lambda>j. j \<in> set xs) ys"
    by (rule filter_cong) (use xy ny in auto)
  with list_emb_Cons2 xy d show ?case by simp
qed


lemma subseq_set_subset: "subseq sel xs \<Longrightarrow> set sel \<subseteq> set xs"
  by (auto dest: list_emb_set)

lemma selection_assignment_ilp:
  assumes "distinct (map job_id js)" and "subseq sel js"
  shows "satisfies (selection_assignment sel) (ilp p js cfg md mt) \<longleftrightarrow> feasible cfg md mt sel"
    and "eval_expr (selection_assignment sel) (objective (ilp p js cfg md mt))
           = sum_list (map p sel)"
proof -
  have d: "distinct js" using assms(1) by (simp add: distinct_map)
  have sub: "set sel \<subseteq> set js" using assms(2) by (rule subseq_set_subset)
  have f: "filter (\<lambda>j. j \<in> set sel) js = sel"
    using assms(2) d by (rule filter_mem_subseq)
  have ind: "\<And>j. j \<in> set js \<Longrightarrow>
      selection_assignment sel (var_of j) = (if j \<in> set sel then 1 else 0)"
    by (rule selection_assignment_member [OF assms(1) sub])
  show "satisfies (selection_assignment sel) (ilp p js cfg md mt) \<longleftrightarrow> feasible cfg md mt sel"
    using satisfies_indicator [of js "selection_assignment sel" "\<lambda>j. j \<in> set sel" p cfg md mt] ind
    by (simp add: f)
  show "eval_expr (selection_assignment sel) (objective (ilp p js cfg md mt))
           = sum_list (map p sel)"
    using objective_indicator [of js "selection_assignment sel" "\<lambda>j. j \<in> set sel" p cfg md mt] ind
    by (simp add: f)
qed

lemma ilp_status:
  assumes "exact_solver solve" and "distinct (map job_id js)"
  shows "fst (solve (ilp p js cfg md mt)) = Optimal
           \<longleftrightarrow> (\<exists>sel. subseq sel js \<and> feasible cfg md mt sel)"
proof
  assume "fst (solve (ilp p js cfg md mt)) = Optimal"
  then obtain a where a: "binary a" "satisfies a (ilp p js cfg md mt)"
    using exact_solver_status [OF assms(1)] by blast
  have "feasible cfg md mt (chosen_of (snd (solve (ilp p js cfg md mt))) js)"
    by (rule solver_selection(1) [OF assms(1) a])
  moreover have "subseq (chosen_of (snd (solve (ilp p js cfg md mt))) js) js"
    by (simp add: chosen_of_def)
  ultimately show "\<exists>sel. subseq sel js \<and> feasible cfg md mt sel" by blast
next
  assume "\<exists>sel. subseq sel js \<and> feasible cfg md mt sel"
  then obtain sel where sel: "subseq sel js" "feasible cfg md mt sel" by blast
  have "satisfies (selection_assignment sel) (ilp p js cfg md mt)"
    using selection_assignment_ilp(1) [OF assms(2) sel(1)] sel(2) by simp
  then show "fst (solve (ilp p js cfg md mt)) = Optimal"
    using exact_solver_status [OF assms(1)] binary_selection_assignment by blast
qed

lemma ilp_optimal:
  assumes "exact_solver solve" and "distinct (map job_id js)"
    and "fst (solve (ilp p js cfg md mt)) = Optimal"
  shows "feasible cfg md mt (chosen_of (snd (solve (ilp p js cfg md mt))) js)"
    and "\<And>sel. subseq sel js \<Longrightarrow> feasible cfg md mt sel \<Longrightarrow>
           sum_list (map p sel) \<le> sum_list (map p (chosen_of (snd (solve (ilp p js cfg md mt))) js))"
proof -
  from assms(3) obtain a where a: "binary a" "satisfies a (ilp p js cfg md mt)"
    using exact_solver_status [OF assms(1)] by blast
  show "feasible cfg md mt (chosen_of (snd (solve (ilp p js cfg md mt))) js)"
    by (rule solver_selection(1) [OF assms(1) a])
  fix sel
  assume sel: "subseq sel js" "feasible cfg md mt sel"
  have s: "satisfies (selection_assignment sel) (ilp p js cfg md mt)"
    using selection_assignment_ilp(1) [OF assms(2) sel(1)] sel(2) by simp
  have "eval_expr (selection_assignment sel) (objective (ilp p js cfg md mt))
          \<le> eval_expr (value_of (snd (solve (ilp p js cfg md mt)))) (objective (ilp p js cfg md mt))"
    by (rule exact_solver_feasible(4) [OF assms(1) a binary_selection_assignment s])
  then show "sum_list (map p sel)
      \<le> sum_list (map p (chosen_of (snd (solve (ilp p js cfg md mt))) js))"
    by (simp add: selection_assignment_ilp(2) [OF assms(2) sel(1)]
        solver_selection(2) [OF assms(1) a])
qed

lemma new_problem_status:
  assumes "exact_solver solve"
  shows "fst (solve new_problem) = Optimal"
proof -
  have "satisfies (\<lambda>v. 0) new_problem" by (simp add: satisfies_def new_problem_def)
  moreover have "binary (\<lambda>v. 0)" by (simp add: binary_def)
  ultimately show ?thesis using exact_solver_status [OF assms] by blast
qed

section \<open>Runs under an exact solver\<close>

lemma run_closed_cases:
  assumes "optimize_jobs solve jobs cfg md mt mp = Inr r"
  obtains (empty) "kept jobs cfg mp = []" "feasible cfg md mt []"
      "r = assemble (solve new_problem) (profit_entry jobs cfg) (build_profits jobs cfg) []"
  | (nonempty) "kept jobs cfg mp \<noteq> []"
      "r = assemble (solve (ilp (profit_entry jobs cfg) (kept jobs cfg mp) cfg md mt))
             (profit_entry jobs cfg) (build_profits jobs cfg) (kept jobs cfg mp)"
  using assms
  by (auto simp: optimize_jobs_closed run_closed_def Let_def split: if_splits)

lemma run_returns:
  "kept jobs cfg mp \<noteq> [] \<or> feasible cfg md mt [] \<Longrightarrow>
   \<exists>r. optimize_jobs solve jobs cfg md mt mp = Inr r"
  by (auto simp: optimize_jobs_closed run_closed_def Let_def)

lemma run_raises:
  "kept jobs cfg mp = [] \<Longrightarrow> \<not> feasible cfg md mt [] \<Longrightarrow>
   optimize_jobs solve jobs cfg md mt mp = Inl TypeError"
  by (simp add: optimize_jobs_closed run_closed_def Let_def)

lemma distinct_kept:
  "distinct (map job_id jobs) \<Longrightarrow> distinct (map job_id (kept jobs cfg mp))"
  by (cases mp) (simp_all add: kept_def distinct_map_filter)

lemma zero_assignment_ilp:
  "satisfies (\<lambda>v. 0) (ilp p js cfg md mt) \<longleftrightarrow> feasible cfg md mt []"
  using satisfies_indicator [of js "\<lambda>v. 0" "\<lambda>j. False" p cfg md mt] by simp

lemma run_feasible:
  assumes "exact_solver solve" and "optimize_jobs solve jobs cfg md mt mp = Inr r"
    and "status r = Optimal"
  shows "feasible cfg md mt (chosen_jobs r)"
  using assms(2)
proof (cases rule: run_closed_cases)
  case empty
  then show ?thesis by (simp add: assemble_def chosen_of_def)
next
  case nonempty
  let ?prob = "ilp (profit_entry jobs cfg) (kept jobs cfg mp) cfg md mt"
  from assms(3) nonempty(2) have "fst (solve ?prob) = Optimal" by (simp add: assemble_def)
  then obtain a where a: "binary a" "satisfies a ?prob"
    using exact_solver_status [OF assms(1)] by blast
  have "feasible cfg md mt (chosen_of (snd (solve ?prob)) (kept jobs cfg mp))"
    by (rule solver_selection(1) [OF assms(1) a])
  with nonempty(2) show ?thesis by (simp add: assemble_def)
qed

lemma run_status:
  assumes "exact_solver solve" and "distinct (map job_id jobs)"
    and "optimize_jobs solve jobs cfg md mt mp = Inr r"
  shows "status r = Optimal
           \<longleftrightarrow> (\<exists>sel. subseq sel (eligibility_filter cfg mp jobs) \<and> feasible cfg md mt sel)"
  using assms(3)
proof (cases rule: run_closed_cases)
  case empty
  have "status r = Optimal" by (simp add: empty(3) assemble_def new_problem_status [OF assms(1)])
  moreover have "subseq [] (eligibility_filter cfg mp jobs)" by simp
  ultimately show ?thesis using empty(2) by blast
next
  case nonempty
  have "status r = fst (solve (ilp (profit_entry jobs cfg) (kept jobs cfg mp) cfg md mt))"
    by (simp add: nonempty(2) assemble_def)
  then show ?thesis
    using ilp_status [OF assms(1) distinct_kept [OF assms(2)],
        where p = "profit_entry jobs cfg" and cfg = cfg and md = md and mt = mt]
    by (simp add: kept_distinct [OF assms(2)])
qed

lemma run_maximal:
  assumes "exact_solver solve" and "distinct (map job_id jobs)"
    and "optimize_jobs solve jobs cfg md mt mp = Inr r" and "status r = Optimal"
    and "subseq sel (eligibility_filter cfg mp jobs)" and "feasible cfg md mt sel"
  shows "profit_sum cfg sel \<le> total_profit r"
  using assms(3)
proof (cases rule: run_closed_cases)
  case empty
  with assms(5) have "sel = []" by (simp add: kept_distinct [OF assms(2)])
  then show ?thesis by (simp add: empty(3) assemble_def chosen_of_def profit_sum_def)
next
  case nonempty
  let ?js = "kept jobs cfg mp"
  let ?prob = "ilp (profit_entry jobs cfg) ?js cfg md mt"
  have st: "fst (solve ?prob) = Optimal"
    using assms(4) by (simp add: nonempty(2) assemble_def)
  have sub: "subseq sel ?js" using assms(5) by (simp add: kept_distinct [OF assms(2)])
  have "sum_list (map (profit_entry jobs cfg) sel)
          \<le> sum_list (map (profit_entry jobs cfg) (chosen_of (snd (solve ?prob)) ?js))"
    by (rule ilp_optimal(2) [OF assms(1) distinct_kept [OF assms(2)] st sub assms(6)])
  moreover have "set sel \<subseteq> set jobs"
    using subseq_set_subset [OF sub] set_kept [of jobs cfg mp] by blast
  ultimately show ?thesis
    by (simp add: nonempty(2) assemble_def sum_profit_entry_distinct [OF assms(2)])
qed

lemma run_total_profit:
  assumes "distinct (map job_id jobs)" and "optimize_jobs solve jobs cfg md mt mp = Inr r"
  shows "total_profit r = profit_sum cfg (chosen_jobs r)"
    and "subseq (chosen_jobs r) (eligibility_filter cfg mp jobs)"
proof -
  from assms(2) obtain prob where r: "r = assemble (solve prob) (profit_entry jobs cfg)
      (build_profits jobs cfg) (kept jobs cfg mp)"
    using run_closed_Inr by blast
  have "set (chosen_of (snd (solve prob)) (kept jobs cfg mp)) \<subseteq> set jobs"
    using set_chosen_of [of "snd (solve prob)" "kept jobs cfg mp"] set_kept [of jobs cfg mp]
    by blast
  then show "total_profit r = profit_sum cfg (chosen_jobs r)"
    by (simp add: r assemble_def sum_profit_entry_distinct [OF assms(1)])
  show "subseq (chosen_jobs r) (eligibility_filter cfg mp jobs)"
    by (simp add: r assemble_def chosen_of_def kept_distinct [OF assms(1), symmetric])
qed

section \<open>The reference solver is exact\<close>

lemma eval_expr_cong:
  "(\<And>v. v \<in> snd ` set ts \<Longrightarrow> a v = a' v) \<Longrightarrow> eval_expr a ts = eval_expr a' ts"
proof -
  assume agree: "\<And>v. v \<in> snd ` set ts \<Longrightarrow> a v = a' v"
  have "map (\<lambda>(c, v). c * a v) ts = map (\<lambda>(c, v). c * a' v) ts"
  proof (rule map_cong)
    fix t
    assume "t \<in> set ts"
    then have "snd t \<in> snd ` set ts" by (rule imageI)
    then have "a (snd t) = a' (snd t)" by (rule agree)
    then show "(case t of (c, v) \<Rightarrow> c * a v) = (case t of (c, v) \<Rightarrow> c * a' v)"
      by (cases t) simp
  qed simp
  then show ?thesis by (simp only: eval_expr_def)
qed

lemma objective_vars: "snd ` set (objective prob) \<subseteq> set (prob_vars prob)"
  by (auto simp: prob_vars_def)

lemma constraint_vars:
  "c \<in> set (constraints prob) \<Longrightarrow> snd ` set (lhs c) \<subseteq> set (prob_vars prob)"
  by (auto simp: prob_vars_def)

lemma agree_objective:
  assumes "\<And>v. v \<in> set (prob_vars prob) \<Longrightarrow> a v = a' v"
  shows "eval_expr a (objective prob) = eval_expr a' (objective prob)"
  by (rule eval_expr_cong) (use objective_vars [of prob] assms in blast)

lemma agree_satisfies:
  assumes "\<And>v. v \<in> set (prob_vars prob) \<Longrightarrow> a v = a' v"
  shows "satisfies a prob \<longleftrightarrow> satisfies a' prob"
proof -
  have "\<And>c. c \<in> set (constraints prob) \<Longrightarrow> eval_expr a (lhs c) = eval_expr a' (lhs c)"
    by (rule eval_expr_cong) (use constraint_vars assms in blast)
  then show ?thesis by (simp add: satisfies_def list_all_iff)
qed

lemma binary_assignment_of: "binary (assignment_of on)"
  by (simp add: binary_def assignment_of_def)

lemma assignment_of_filter:
  assumes "binary a" and "v \<in> set vs"
  shows "assignment_of (filter (\<lambda>v. a v = 1) vs) v = a v"
  using assms by (auto simp: assignment_of_def binary_def)

lemma argmax_None: "argmax f xs = None \<longleftrightarrow> xs = []"
  by (induction xs) (auto split: option.splits)

lemma argmax_Some:
  "argmax f xs = Some y \<Longrightarrow> y \<in> set xs \<and> (\<forall>x \<in> set xs. f x \<le> f y)"
proof (induction xs arbitrary: y)
  case Nil
  then show ?case by simp
next
  case (Cons x xs)
  show ?case
  proof (cases "argmax f xs")
    case None
    then have "xs = []" by (simp add: argmax_None)
    with Cons.prems show ?thesis by simp
  next
    case (Some z)
    from Cons.IH [OF Some] have z: "z \<in> set xs" "\<forall>x \<in> set xs. f x \<le> f z" by simp_all
    show ?thesis
    proof (cases "f x < f z")
      case True
      with Some Cons.prems have "y = z" by simp
      with z True show ?thesis by auto
    next
      case False
      with Some Cons.prems have "y = x" by simp
      with z False show ?thesis by fastforce
    qed
  qed
qed


lemma enum_candidate:
  assumes "binary a" and "satisfies a prob"
  shows "filter (\<lambda>v. a v = 1) (prob_vars prob)
           \<in> set (filter (\<lambda>on. satisfies (assignment_of on) prob) (subseqs (prob_vars prob)))"
    and "eval_expr (assignment_of (filter (\<lambda>v. a v = 1) (prob_vars prob))) (objective prob)
           = eval_expr a (objective prob)"
proof -
  let ?on = "filter (\<lambda>v. a v = 1) (prob_vars prob)"
  have agree: "\<And>v. v \<in> set (prob_vars prob) \<Longrightarrow> assignment_of ?on v = a v"
    by (rule assignment_of_filter [OF assms(1)])
  have "satisfies (assignment_of ?on) prob"
    using agree_satisfies [of prob "assignment_of ?on" a] agree assms(2) by blast
  then show "?on \<in> set (filter (\<lambda>on. satisfies (assignment_of on) prob) (subseqs (prob_vars prob)))"
    by simp
  show "eval_expr (assignment_of ?on) (objective prob) = eval_expr a (objective prob)"
    by (rule agree_objective) (rule agree)
qed

lemma value_of_enum:
  assumes "set on \<subseteq> set vs"
  shows "value_of (\<lambda>v. if v \<in> set vs then Some (assignment_of on v) else None)
           = assignment_of on"
proof
  fix v
  show "value_of (\<lambda>v. if v \<in> set vs then Some (assignment_of on v) else None) v
          = assignment_of on v"
    using assms by (auto simp: value_of_def assignment_of_def)
qed

lemma enum_solve_exact: "exact_solver enum_solve"
  unfolding exact_solver_def
proof
  fix prob
  let ?vars = "prob_vars prob"
  let ?obj = "\<lambda>on. eval_expr (assignment_of on) (objective prob)"
  let ?cands = "filter (\<lambda>on. satisfies (assignment_of on) prob) (subseqs ?vars)"
  show "if (\<exists>a. binary a \<and> satisfies a prob) then
          fst (enum_solve prob) = Optimal
          \<and> (\<forall>v \<in> set (prob_vars prob).
                snd (enum_solve prob) v = Some 0 \<or> snd (enum_solve prob) v = Some 1)
          \<and> satisfies (value_of (snd (enum_solve prob))) prob
          \<and> (\<forall>a. binary a \<and> satisfies a prob \<longrightarrow>
                eval_expr a (objective prob)
                  \<le> eval_expr (value_of (snd (enum_solve prob))) (objective prob))
        else fst (enum_solve prob) = Infeasible"
  proof (cases "\<exists>a. binary a \<and> satisfies a prob")
    case True
    then obtain a0 where a0: "binary a0" "satisfies a0 prob" by blast
    have "?cands \<noteq> []"
    proof
      assume e: "?cands = []"
      from enum_candidate(1) [OF a0] show False unfolding e by simp
    qed
    then obtain on where on: "argmax ?obj ?cands = Some on"
      using argmax_None [of ?obj ?cands] by auto
    from argmax_Some [OF on]
    have mem: "on \<in> set ?cands" and best: "\<forall>x \<in> set ?cands. ?obj x \<le> ?obj on"
      by simp_all
    from mem have sat: "satisfies (assignment_of on) prob"
      and sub: "set on \<subseteq> set ?vars"
      by (auto dest: list_emb_set)
    have sol: "enum_solve prob
        = (Optimal, \<lambda>v. if v \<in> set ?vars then Some (assignment_of on v) else None)"
      by (simp add: enum_solve_def on)
    have val: "value_of (snd (enum_solve prob)) = assignment_of on"
      by (simp add: sol value_of_enum [OF sub])
    have 1: "fst (enum_solve prob) = Optimal" by (simp add: sol)
    have 2: "\<forall>v \<in> set (prob_vars prob).
                snd (enum_solve prob) v = Some 0 \<or> snd (enum_solve prob) v = Some 1"
      by (simp add: sol assignment_of_def)
    have 3: "satisfies (value_of (snd (enum_solve prob))) prob"
      by (simp add: val sat)
    have 4: "\<forall>a. binary a \<and> satisfies a prob \<longrightarrow>
                eval_expr a (objective prob)
                  \<le> eval_expr (value_of (snd (enum_solve prob))) (objective prob)"
    proof (intro allI impI)
      fix a
      assume a: "binary a \<and> satisfies a prob"
      then have b: "binary a" and s: "satisfies a prob" by simp_all
      from best enum_candidate(1) [OF b s]
      have "?obj (filter (\<lambda>v. a v = 1) ?vars) \<le> ?obj on" by blast
      then show "eval_expr a (objective prob)
                  \<le> eval_expr (value_of (snd (enum_solve prob))) (objective prob)"
        by (simp add: val enum_candidate(2) [OF b s])
    qed
    from True 1 2 3 4 show ?thesis by simp
  next
    case False
    have "?cands = []"
    proof (rule ccontr)
      assume "?cands \<noteq> []"
      then obtain on where "on \<in> set ?cands" by (cases ?cands) auto
      then have "satisfies (assignment_of on) prob" by simp
      with binary_assignment_of [of on] False show False by blast
    qed
    then have "fst (enum_solve prob) = Infeasible"
      by (simp add: enum_solve_def)
    with False show ?thesis by simp
  qed
qed

section \<open>Optimality\<close>

text \<open>
  Claim C1, as stated, fails on a list with a repeated id, even under an exact solver: the
  two jobs share one variable, so they are chosen together or not at all. With a budget
  of 4 hours they do not fit together, the run returns status \<open>Optimal\<close> with total
  profit 0, and the first job alone satisfies the constraints with profit 541.
\<close>

theorem optimality_repeated_ids_counterexample:
  "exact_solver enum_solve
   \<and> optimize_jobs enum_solve [job1, job1_again] tight_cfg None None None =
       Inr \<lparr>status = Optimal, total_profit = 0, total_hours = 0, total_pallets = 0,
            chosen_jobs = [], all_profits = [''1'' \<mapsto> 669 / 2]\<rparr>
   \<and> [job1] \<in> set (subseqs (eligibility_filter tight_cfg None [job1, job1_again]))
   \<and> feasible tight_cfg None None [job1]
   \<and> profit_sum tight_cfg [job1] = 541
   \<and> total_profit \<lparr>status = Optimal, total_profit = 0, total_hours = 0, total_pallets = 0,
            chosen_jobs = [], all_profits = [''1'' \<mapsto> (669 / 2 :: real)]\<rparr>
       < profit_sum tight_cfg [job1]"
proof -
  have "optimize_jobs enum_solve [job1, job1_again] tight_cfg None None None =
       Inr \<lparr>status = Optimal, total_profit = 0, total_hours = 0, total_pallets = 0,
            chosen_jobs = [], all_profits = [''1'' \<mapsto> 669 / 2]\<rparr>"
    by (simp add: eval_defs job1_def job1_again_def tight_cfg_def)
  moreover have "[job1] \<in> set (subseqs (eligibility_filter tight_cfg None [job1, job1_again]))"
    by (simp add: eligibility_filter_def)
  moreover have "feasible tight_cfg None None [job1]"
    by (simp add: feasible_def within_bound_def job1_def tight_cfg_def)
  moreover have "profit_sum tight_cfg [job1] = 541"
    by (simp add: profit_sum_def compute_job_profit_def job1_def tight_cfg_def)
  ultimately show ?thesis using enum_solve_exact by simp
qed

text \<open>
  Claim C1, amended. Under an exact solver and when the ids of the candidates are unique,
  whenever some selection of the candidates kept by the filter satisfies the constraints,
  the run returns a result with status \<open>Optimal\<close> whose chosen jobs are such a selection
  and whose total profit is the maximum of the profit sums over all the \<open>2 ^ n\<close> sublists
  of the kept candidates that satisfy the constraints. The number of candidates is not
  restricted.
\<close>

theorem optimize_jobs_optimal:
  assumes "exact_solver solve"
    and "distinct (map job_id jobs)"
    and "\<exists>sel \<in> set (subseqs (eligibility_filter cfg mp jobs)). feasible cfg md mt sel"
  shows "\<exists>r. optimize_jobs solve jobs cfg md mt mp = Inr r
           \<and> status r = Optimal
           \<and> chosen_jobs r \<in> set (subseqs (eligibility_filter cfg mp jobs))
           \<and> feasible cfg md mt (chosen_jobs r)
           \<and> total_profit r = profit_sum cfg (chosen_jobs r)
           \<and> total_profit r
               = Max (set (map (profit_sum cfg)
                   (filter (feasible cfg md mt) (subseqs (eligibility_filter cfg mp jobs)))))"
proof -
  let ?js = "eligibility_filter cfg mp jobs"
  from assms(3) obtain sel0 where sel0: "subseq sel0 ?js" "feasible cfg md mt sel0"
    by auto
  have "kept jobs cfg mp \<noteq> [] \<or> feasible cfg md mt []"
  proof (cases "kept jobs cfg mp = []")
    case True
    with sel0(1) have "sel0 = []" by (simp add: kept_distinct [OF assms(2)])
    with sel0(2) show ?thesis by simp
  qed simp
  then obtain r where r: "optimize_jobs solve jobs cfg md mt mp = Inr r"
    using run_returns by blast
  have st: "status r = Optimal"
    using run_status [OF assms(1,2) r] sel0 by blast
  have f: "feasible cfg md mt (chosen_jobs r)"
    by (rule run_feasible [OF assms(1) r st])
  have tp: "total_profit r = profit_sum cfg (chosen_jobs r)"
    and sub: "subseq (chosen_jobs r) ?js"
    by (rule run_total_profit [OF assms(2) r])+
  let ?A = "set (map (profit_sum cfg) (filter (feasible cfg md mt) (subseqs ?js)))"
  have "Max ?A = total_profit r"
  proof (rule Max_eqI)
    show "finite ?A" by (rule finite_set)
    show "total_profit r \<in> ?A" using f sub tp by auto
    fix y
    assume "y \<in> ?A"
    then obtain sel where "subseq sel ?js" "feasible cfg md mt sel" "y = profit_sum cfg sel"
      by auto
    then show "y \<le> total_profit r"
      using run_maximal [OF assms(1,2) r st] by simp
  qed
  with r st f tp sub show ?thesis by auto
qed

theorem optimize_jobs_optimal_witness:
  "Max (set (map (profit_sum tight_cfg)
        (filter (feasible tight_cfg None None) (subseqs [job1, job2])))) = 541
   \<and> exact_solver enum_solve \<and> distinct (map job_id [job1, job2])
   \<and> feasible tight_cfg None None []"
proof -
  have d: "distinct (map job_id [job1, job2])"
    by (simp add: job1_def job2_def)
  have f: "feasible tight_cfg None None []"
    by (simp add: feasible_def within_bound_def tight_cfg_def)
  then have ex: "\<exists>sel \<in> set (subseqs (eligibility_filter tight_cfg None [job1, job2])).
      feasible tight_cfg None None sel"
    by (auto simp: eligibility_filter_def)
  from optimize_jobs_optimal [OF enum_solve_exact d ex]
  have "Max (set (map (profit_sum tight_cfg)
        (filter (feasible tight_cfg None None) (subseqs [job1, job2])))) = 541"
    by (auto simp: run_tight eligibility_filter_def)
  with d f enum_solve_exact show ?thesis by blast
qed

section \<open>Constraints and the effect of the filter\<close>

lemma feasible_unfold:
  "feasible cfg md mt sel \<longleftrightarrow>
     sum_list (map hours sel) \<le> max_hours cfg
     \<and> sum_list (map pallets sel) \<le> max_pallets cfg
     \<and> (\<forall>b. md = Some b \<longrightarrow> sum_list (map deadhead_miles sel) \<le> b)
     \<and> (\<forall>b. mt = Some b \<longrightarrow>
           sum_list (map (\<lambda>job. loaded_miles job + deadhead_miles job) sel) \<le> b)"
  by (cases md; cases mt) (simp_all add: feasible_def within_bound_def)

text \<open>
  Whatever the solver answers, no selection of jobs with non-negative hours stays within
  a negative budget of hours.
\<close>

lemma negative_hours_budget_violated:
  assumes "optimize_jobs solve jobs cfg md mt mp = Inr r"
    and "max_hours cfg < 0" and "\<And>job. job \<in> set jobs \<Longrightarrow> 0 \<le> hours job"
  shows "\<not> sum_list (map hours (chosen_jobs r)) \<le> max_hours cfg"
proof -
  from assms(1) obtain prob where r: "r = assemble (solve prob) (profit_entry jobs cfg)
      (build_profits jobs cfg) (kept jobs cfg mp)"
    using run_closed_Inr by blast
  have "set (chosen_jobs r) \<subseteq> set jobs"
    using set_chosen_of [of "snd (solve prob)" "kept jobs cfg mp"] set_kept [of jobs cfg mp]
    by (auto simp: r assemble_def)
  then have "0 \<le> sum_list (map hours (chosen_jobs r))"
    by (intro sum_list_nonneg) (auto simp: assms(3))
  with assms(2) show ?thesis by simp
qed

text \<open>
  Claim C2, as stated, fails: with a negative budget of hours the run returns a result
  (status \<open>Infeasible\<close>, no job chosen) whose sum of hours, 0, exceeds the budget.
\<close>

theorem constraint_violated_counterexample:
  "optimize_jobs enum_solve [job1, job2] negative_cfg None None None =
     Inr \<lparr>status = Infeasible, total_profit = 0, total_hours = 0, total_pallets = 0,
          chosen_jobs = [], all_profits = [''1'' \<mapsto> 541, ''2'' \<mapsto> 408]\<rparr>
   \<and> \<not> sum_list (map hours
            (chosen_jobs \<lparr>status = Infeasible, total_profit = 0, total_hours = 0,
               total_pallets = 0, chosen_jobs = [],
               all_profits = [''1'' \<mapsto> 541, ''2'' \<mapsto> (408::real)]\<rparr>))
          \<le> max_hours negative_cfg"
  using run_negative by (simp add: negative_cfg_def)

text \<open>
  Claim C2, amended. Under an exact solver, whenever the status of the result is
  \<open>Optimal\<close>, the chosen jobs satisfy every constraint that is stated: hours, pallets,
  and, for each optional bound that is configured, deadhead miles and total miles.
\<close>

theorem chosen_satisfies_constraints:
  assumes "exact_solver solve"
    and "optimize_jobs solve jobs cfg md mt mp = Inr r"
    and "status r = Optimal"
  shows "sum_list (map hours (chosen_jobs r)) \<le> max_hours cfg
         \<and> sum_list (map pallets (chosen_jobs r)) \<le> max_pallets cfg
         \<and> (\<forall>b. md = Some b \<longrightarrow> sum_list (map deadhead_miles (chosen_jobs r)) \<le> b)
         \<and> (\<forall>b. mt = Some b \<longrightarrow>
               sum_list (map (\<lambda>job. loaded_miles job + deadhead_miles job) (chosen_jobs r)) \<le> b)"
  using run_feasible [OF assms] unfolding feasible_unfold by blast

theorem chosen_satisfies_constraints_witness:
  "sum_list (map hours [job1]) \<le> max_hours tight_cfg
   \<and> sum_list (map pallets [job1]) \<le> max_pallets tight_cfg
   \<and> \<not> sum_list (map hours [job1, job2]) \<le> max_hours tight_cfg"
proof -
  have "\<not> sum_list (map hours [job1, job2]) \<le> max_hours tight_cfg"
    by (simp add: job1_def job2_def tight_cfg_def)
  with chosen_satisfies_constraints [OF enum_solve_exact run_tight]
  show ?thesis by simp
qed



section \<open>Repeated ids and negative budgets\<close>

lemma build_profits_map_of:
  "build_profits jobs cfg
     = map_of (rev (map (\<lambda>job. (job_id job, compute_job_profit job cfg)) jobs))"
proof (induction jobs rule: rev_induct)
  case Nil
  then show ?case by (simp add: build_profits_def)
next
  case (snoc job jobs)
  have "build_profits (jobs @ [job]) cfg
          = (build_profits jobs cfg)(job_id job \<mapsto> compute_job_profit job cfg)"
    by (simp add: build_profits_def)
  with snoc show ?case by simp
qed

text \<open>
  Claim C6, as stated, fails: the run on a list with two candidates of id \<open>1\<close> raises no
  error and returns a result.
\<close>

theorem duplicate_ids_counterexample:
  "job_id job1 = job_id job1_again
   \<and> optimize_jobs enum_solve [job1, job1_again] demo_cfg None None None =
       Inr \<lparr>status = Optimal, total_profit = 669, total_hours = 9 / 2, total_pallets = 3,
            chosen_jobs = [job1, job1_again], all_profits = [''1'' \<mapsto> 669 / 2]\<rparr>"
  using run_duplicate by (simp add: job1_def job1_again_def)

text \<open>
  Claim C6, amended. The run makes no check on ids. For every candidate list, with or
  without repeated ids, and every solver, a result is returned as soon as a job is kept by
  the filter or every configured bound is non-negative; its profit mapping holds, under
  each id, the profit of the last candidate with that id.
\<close>

theorem duplicate_ids_accepted:
  assumes "eligible_jobs (build_profits jobs cfg) mp jobs = Inr js"
    and "js \<noteq> [] \<or> feasible cfg md mt []"
  shows "\<exists>r. optimize_jobs solve jobs cfg md mt mp = Inr r
           \<and> all_profits r
               = map_of (rev (map (\<lambda>job. (job_id job, compute_job_profit job cfg)) jobs))"
proof -
  from assms(1) have "js = kept jobs cfg mp" by (simp add: eligible_jobs_eq)
  with assms(2) have "kept jobs cfg mp \<noteq> [] \<or> feasible cfg md mt []" by simp
  then obtain r where r: "optimize_jobs solve jobs cfg md mt mp = Inr r"
    using run_returns by blast
  then obtain prob where "r = assemble (solve prob) (profit_entry jobs cfg)
      (build_profits jobs cfg) (kept jobs cfg mp)"
    using run_closed_Inr by blast
  then have "all_profits r = build_profits jobs cfg" by (simp add: assemble_def)
  with r show ?thesis by (simp add: build_profits_map_of)
qed

theorem duplicate_ids_accepted_witness:
  "\<exists>r. optimize_jobs enum_solve [job1, job1_again] demo_cfg None None None = Inr r
      \<and> all_profits r ''1'' = Some (compute_job_profit job1_again demo_cfg)
      \<and> compute_job_profit job1_again demo_cfg \<noteq> compute_job_profit job1 demo_cfg"
proof -
  have e: "eligible_jobs (build_profits [job1, job1_again] demo_cfg) None [job1, job1_again]
      = Inr [job1, job1_again]"
    by (simp add: eligible_jobs_def)
  have n: "compute_job_profit job1_again demo_cfg \<noteq> compute_job_profit job1 demo_cfg"
    by (simp add: compute_job_profit_def job1_def job1_again_def demo_cfg_def)
  from duplicate_ids_accepted [OF e, of None None enum_solve] n
  show ?thesis by (auto simp: job1_def job1_again_def)
qed

text \<open>
  With repeated ids the two candidates share one variable and one profit entry: on the
  example with the tighter budget, neither candidate is chosen and the total profit is 0,
  although the first candidate alone fits the budget and has profit 541.
\<close>

lemma run_duplicate_tight:
  "optimize_jobs enum_solve [job1, job1_again] tight_cfg None None None =
     Inr \<lparr>status = Optimal, total_profit = 0, total_hours = 0, total_pallets = 0,
          chosen_jobs = [], all_profits = [''1'' \<mapsto> 669 / 2]\<rparr>
   \<and> feasible tight_cfg None None [job1] \<and> profit_sum tight_cfg [job1] = 541"
  by (simp add: eval_defs profit_sum_def job1_def job1_again_def tight_cfg_def)

text \<open>
  Claim C4: the failing input. With no candidate (or none kept by the filter) and a
  negative budget of hours, the run raises \<open>TypeError\<close>, whatever the solver: the solver
  is not reached.
\<close>

theorem negative_budget_no_jobs_raises:
  "optimize_jobs solve [] negative_cfg None None None = Inl TypeError
   \<and> optimize_jobs solve [job1, job2] negative_cfg None None (Some 1000) = Inl TypeError"
  by (simp add: eval_defs job1_def job2_def negative_cfg_def)


text \<open>
  What the run does with a negative budget when at least one job is kept: under an exact
  solver and with non-negative hours and pallets, a result is returned and its status is
  \<open>Infeasible\<close>. In general the status is \<open>Optimal\<close> or \<open>Infeasible\<close>, and it is
  \<open>Optimal\<close> as soon as the empty selection satisfies every configured bound.
\<close>

lemma run_status_cases:
  assumes "exact_solver solve" and "optimize_jobs solve jobs cfg md mt mp = Inr r"
  shows "(feasible cfg md mt [] \<longrightarrow> status r = Optimal)
         \<and> (status r = Optimal \<or> status r = Infeasible)"
  using assms(2)
proof (cases rule: run_closed_cases)
  case empty
  then show ?thesis by (simp add: assemble_def new_problem_status [OF assms(1)])
next
  case nonempty
  let ?prob = "ilp (profit_entry jobs cfg) (kept jobs cfg mp) cfg md mt"
  have st: "status r = fst (solve ?prob)" by (simp add: nonempty(2) assemble_def)
  have 1: "feasible cfg md mt [] \<longrightarrow> status r = Optimal"
  proof
    assume "feasible cfg md mt []"
    then have "satisfies (\<lambda>v. 0) ?prob" by (simp add: zero_assignment_ilp)
    moreover have "binary (\<lambda>v. 0)" by (simp add: binary_def)
    ultimately show "status r = Optimal"
      using exact_solver_status [OF assms(1), of ?prob] st by auto
  qed
  have 2: "status r = Optimal \<or> status r = Infeasible"
    using exact_solver_status [OF assms(1), of ?prob]
      exact_solver_infeasible [OF assms(1), of ?prob] st by auto
  from 1 2 show ?thesis by simp
qed

lemma eval_linear_nonneg:
  assumes "binary a" and "\<And>job. job \<in> set js \<Longrightarrow> 0 \<le> c job"
  shows "0 \<le> eval_expr a (linear c js)"
proof -
  have "\<And>v. 0 \<le> a v" using assms(1) by (auto simp: binary_def) (metis zero_le_one order_refl)
  then show ?thesis
    unfolding eval_linear by (intro sum_list_nonneg) (auto simp: assms(2))
qed

lemma negative_budget_infeasible:
  assumes "exact_solver solve" and "kept jobs cfg mp \<noteq> []"
    and "max_hours cfg < 0 \<or> max_pallets cfg < 0"
    and "\<And>job. job \<in> set jobs \<Longrightarrow> 0 \<le> hours job \<and> 0 \<le> pallets job"
  shows "\<exists>r. optimize_jobs solve jobs cfg md mt mp = Inr r \<and> status r = Infeasible"
proof -
  let ?js = "kept jobs cfg mp"
  let ?prob = "ilp (profit_entry jobs cfg) ?js cfg md mt"
  have nn: "\<And>job. job \<in> set ?js \<Longrightarrow> 0 \<le> hours job \<and> 0 \<le> pallets job"
    using set_kept [of jobs cfg mp] assms(4) by blast
  have "\<not> (\<exists>a. binary a \<and> satisfies a ?prob)"
  proof
    assume "\<exists>a. binary a \<and> satisfies a ?prob"
    then obtain a where a: "binary a" "satisfies a ?prob" by blast
    from a(2) have h: "eval_expr a (linear hours ?js) \<le> max_hours cfg"
      and p: "eval_expr a (linear pallets ?js) \<le> max_pallets cfg"
      by (auto simp: satisfies_ilp bounds_def)
    have "0 \<le> eval_expr a (linear hours ?js)" "0 \<le> eval_expr a (linear pallets ?js)"
      using nn by (auto intro: eval_linear_nonneg [OF a(1)])
    with h p assms(3) show False by linarith
  qed
  then have "fst (solve ?prob) = Infeasible"
    by (rule exact_solver_infeasible [OF assms(1)])
  with assms(2) show ?thesis
    by (simp add: optimize_jobs_closed run_closed_def Let_def assemble_def)
qed

end
